(* ===== verification/Prelude.thy ===== *)
theory Prelude
  imports Main
begin

text \<open>
  Shared vocabulary of the development: the names of the model's basic types, the
  error values that stand for the exceptions the TypeScript code throws, the few
  JavaScript string built-ins the services call (\<open>toLowerCase\<close>, \<open>toUpperCase\<close>, \<open>join\<close>, \<open>slice\<close>,
  \<open>[...new Set(xs)]\<close>), the SQL \<open>UPDATE ... WHERE\<close> over a table held as a list
  of rows, and the generic list lemmas the component theories share.
\<close>

named_theorems js_simps "evaluation rules of the modelled JavaScript built-ins"

type_synonym chain_id = int
type_synonym block_num = int
type_synonym address = string
type_synonym hexstr = string

text \<open>
  Every exception the services can raise, as a value. The services catch them (or
  let them reject a promise); which catch handles which error is part of each
  component's model.
\<close>

datatype js_error =
    InvalidDataLength
  | BigIntSyntaxError
  | RpcFailure
  | DbFailure

subsection \<open>JavaScript string built-ins on ASCII text\<close>

text \<open>
  \<open>String.prototype.toLowerCase\<close> on the ASCII letters (addresses and hashes are
  ASCII hex text; characters outside ASCII are not modelled).
\<close>

definition ascii_upper :: string where
  "ascii_upper = ''ABCDEFGHIJKLMNOPQRSTUVWXYZ''"

definition ascii_lower :: string where
  "ascii_lower = ''abcdefghijklmnopqrstuvwxyz''"

definition lower_char :: "char \<Rightarrow> char" where
  "lower_char c = (case map_of (zip ascii_upper ascii_lower) c of Some d \<Rightarrow> d | None \<Rightarrow> c)"

definition js_lower :: "string \<Rightarrow> string" where
  "js_lower s = map lower_char s"

text \<open>\<open>String.prototype.toUpperCase\<close> on the ASCII letters.\<close>

definition upper_char :: "char \<Rightarrow> char" where
  "upper_char c = (case map_of (zip ascii_lower ascii_upper) c of Some d \<Rightarrow> d | None \<Rightarrow> c)"

definition js_upper :: "string \<Rightarrow> string" where
  "js_upper s = map upper_char s"

text \<open>A decimal digit, as \<open>parseInt\<close> and the pattern \<open>\\d\<close> read one.\<close>

definition is_dec :: "char \<Rightarrow> bool" where
  "is_dec c \<longleftrightarrow> c \<in> set ''0123456789''"

text \<open>\<open>xs.join(sep)\<close> on strings.\<close>

fun js_join :: "string \<Rightarrow> string list \<Rightarrow> string" where
  "js_join sep [] = []"
| "js_join sep [x] = x"
| "js_join sep (x # y # xs) = x @ sep @ js_join sep (y # xs)"

text \<open>\<open>s.slice(b, e)\<close> for \<open>0 \<le> b\<close>, \<open>0 \<le> e\<close>: indices past the end are clamped,
  as \<open>take\<close> and \<open>drop\<close> do.\<close>

definition js_slice :: "string \<Rightarrow> nat \<Rightarrow> nat \<Rightarrow> string" where
  "js_slice s b e = take (e - b) (drop b s)"

text \<open>\<open>[...new Set(xs)]\<close>: duplicates removed, first occurrences kept in order.\<close>

fun js_set_list :: "'a list \<Rightarrow> 'a list" where
  "js_set_list [] = []"
| "js_set_list (x # xs) = x # js_set_list (filter (\<lambda>y. y \<noteq> x) xs)"

subsection \<open>SQL UPDATE on a table held as a list of rows\<close>

definition update_where :: "('r \<Rightarrow> bool) \<Rightarrow> ('r \<Rightarrow> 'r) \<Rightarrow> 'r list \<Rightarrow> 'r list" where
  "update_where P f rs = map (\<lambda>r. if P r then f r else r) rs"

subsection \<open>Shared lemmas\<close>

text \<open>A loop whose every step is a sequence of steps of \<open>R\<close> is one.\<close>

lemma fold_steps: "(\<And>x s. R\<^sup>*\<^sup>* s (f x s)) \<Longrightarrow> R\<^sup>*\<^sup>* s (fold f xs s)"
  by (induction xs arbitrary: s) (auto intro: rtranclp_trans)

lemma js_lower_length [simp]: "length (js_lower s) = length s"
  by (simp add: js_lower_def)

lemma lower_char_idem [simp]: "lower_char (lower_char c) = lower_char c"
proof (cases "map_of (zip ascii_upper ascii_lower) c")
  case None
  then show ?thesis by (simp add: lower_char_def)
next
  case (Some d)
  then have "d \<in> set ascii_lower" by (auto dest: map_of_SomeD set_zip_rightD)
  moreover have "set ascii_lower \<inter> set ascii_upper = {}"
    by (simp add: ascii_lower_def ascii_upper_def)
  ultimately have "map_of (zip ascii_upper ascii_lower) d = None"
    by (auto dest!: map_of_SomeD set_zip_leftD)
  with Some show ?thesis by (simp add: lower_char_def)
qed

lemma js_lower_idem [simp]: "js_lower (js_lower s) = js_lower s"
  by (simp add: js_lower_def)

lemma js_slice_length [simp]:
  "length (js_slice s b e) = min (e - b) (length s - b)"
  by (simp add: js_slice_def)

lemma set_js_set_list [simp]: "set (js_set_list xs) = set xs"
  by (induction xs rule: js_set_list.induct) auto

lemma distinct_js_set_list [simp]: "distinct (js_set_list xs)"
  by (induction xs rule: js_set_list.induct) auto

lemma js_set_list_distinct_id: "distinct xs \<Longrightarrow> js_set_list xs = xs"
proof (induction xs)
  case Nil
  then show ?case by simp
next
  case (Cons x xs)
  then have "filter (\<lambda>y. y \<noteq> x) xs = xs" by (auto simp: filter_id_conv)
  with Cons show ?case by simp
qed

lemma update_where_length [simp]: "length (update_where P f rs) = length rs"
  by (simp add: update_where_def)

lemma update_where_append [simp]:
  "update_where P f (xs @ ys) = update_where P f xs @ update_where P f ys"
  by (simp add: update_where_def)

lemma update_where_nth:
  "i < length rs \<Longrightarrow> update_where P f rs ! i = (if P (rs ! i) then f (rs ! i) else rs ! i)"
  by (simp add: update_where_def)

lemma update_where_id:
  "\<forall>r\<in>set rs. \<not> P r \<Longrightarrow> update_where P f rs = rs"
  by (induction rs) (auto simp: update_where_def)

lemma update_where_map_keep:
  "(\<And>r. g (f r) = g r) \<Longrightarrow> map g (update_where P f rs) = map g rs"
  by (induction rs) (auto simp: update_where_def)

lemma find_update_where_other:
  "(\<And>r. Q (f r) = Q r) \<Longrightarrow> (\<And>r. Q r \<Longrightarrow> \<not> P r) \<Longrightarrow>
   find Q (update_where P f rs) = find Q rs"
  by (induction rs) (auto simp: update_where_def)

lemma find_append:
  "find P (xs @ ys) = (case find P xs of None \<Rightarrow> find P ys | Some x \<Rightarrow> Some x)"
  by (induction xs) auto

lemma find_update_where_same:
  "(\<And>r. Q (f r) = Q r) \<Longrightarrow> find Q (update_where Q f rs) = map_option f (find Q rs)"
  by (induction rs) (auto simp: update_where_def)

lemma update_where_keeps: "x \<in> set rs \<Longrightarrow> \<not> P x \<Longrightarrow> x \<in> set (update_where P f rs)"
  by (induction rs) (auto simp: update_where_def)

declare js_slice_def [js_simps] js_lower_def [js_simps] lower_char_def [js_simps]
  ascii_upper_def [js_simps] ascii_lower_def [js_simps]

lemma upt_split: "m < n \<Longrightarrow> [0..<n] = [0..<m] @ m # [Suc m..<n]"
  using upt_add_eq_append [of 0 m "n - m"] upt_conv_Cons [of m n] by simp

lemma rev_upt_split: "m \<le> n \<Longrightarrow> rev [0..<Suc n] = rev [Suc m..<Suc n] @ m # rev [0..<m]"
  using upt_split [of m "Suc n"] by simp

lemma takeWhile_all_dec: "list_all P xs \<Longrightarrow> takeWhile P (xs @ ys) = xs @ takeWhile P ys"
  by (induction xs) auto

lemma takeWhile_all_list: "list_all P xs \<Longrightarrow> takeWhile P xs = xs"
  using takeWhile_all_dec [of P xs "[]"] by simp

lemma drop_past: "Suc (length p) \<le> k \<Longrightarrow> drop k (p @ x # rest) = drop (k - Suc (length p)) rest"
proof -
  assume "Suc (length p) \<le> k"
  then obtain j where "k = Suc (length p) + j" using le_Suc_ex by blast
  then show ?thesis by simp
qed

end
