(* ===== verification/BigIntStr.thy ===== *)
theory BigIntStr
  imports Prelude
begin

text \<open>
  The JavaScript \<open>BigInt\<close> text conversions the services rely on: the ledger
  stores every amount as a decimal string (\<open>amount.toString()\<close>) and reads it
  back with \<open>BigInt(user.total_staked)\<close>; the parser reads the staked amount with
  \<open>BigInt('0x' + data.slice(66))\<close>. \<open>BigInt\<close> of a string follows the
  StringToBigInt rules of ECMAScript: surrounding white space is dropped, the empty
  string is \<open>0n\<close>, a decimal literal may carry one sign, a \<open>0x\<close>/\<open>0o\<close>/\<open>0b\<close>
  literal may not, and anything else throws a \<open>SyntaxError\<close> (here \<open>None\<close>).
  Strings are byte strings: only the ASCII white-space characters are modelled.
\<close>

subsection \<open>Digits\<close>

definition digit_chars :: string where
  "digit_chars = ''0123456789abcdef''"

text \<open>Value of one digit character (upper- or lower-case hex letters) in radix \<open>r\<close>.\<close>

definition radix_digit :: "nat \<Rightarrow> char \<Rightarrow> nat option" where
  "radix_digit r c =
     (let n = (of_char c :: nat);
          d = (if 48 \<le> n \<and> n \<le> 57 then Some (n - 48)
               else if 97 \<le> n \<and> n \<le> 102 then Some (n - 87)
               else if 65 \<le> n \<and> n \<le> 70 then Some (n - 55) else None)
      in case d of Some v \<Rightarrow> if v < r then Some v else None | None \<Rightarrow> None)"

text \<open>Horner evaluation of a digit string; \<open>None\<close> at the first non-digit.\<close>

fun digits_acc :: "nat \<Rightarrow> nat \<Rightarrow> string \<Rightarrow> nat option" where
  "digits_acc r acc [] = Some acc"
| "digits_acc r acc (c # cs) =
     (case radix_digit r c of None \<Rightarrow> None | Some d \<Rightarrow> digits_acc r (acc * r + d) cs)"

definition digits_value :: "nat \<Rightarrow> string \<Rightarrow> nat option" where
  "digits_value r cs = (if cs = [] then None else digits_acc r 0 cs)"

text \<open>\<open>n.toString(r)\<close> for a non-negative \<open>n\<close> and \<open>2 \<le> r \<le> 16\<close>.\<close>

function show_radix :: "nat \<Rightarrow> nat \<Rightarrow> string" where
  "show_radix r n =
     (if r < 2 \<or> n < r then [digit_chars ! n] else show_radix r (n div r) @ [digit_chars ! (n mod r)])"
  by pat_completeness auto
termination
  by (relation "measure snd") auto

declare show_radix.simps [simp del]

subsection \<open>BigInt(string) and BigInt.prototype.toString\<close>

definition js_ws :: "char \<Rightarrow> bool" where
  "js_ws c \<longleftrightarrow> (of_char c :: nat) \<in> {9, 10, 11, 12, 13, 32}"

definition js_trim :: "string \<Rightarrow> string" where
  "js_trim s = rev (dropWhile js_ws (rev (dropWhile js_ws s)))"

definition decimal_literal :: "string \<Rightarrow> int option" where
  "decimal_literal s =
     (case s of
        [] \<Rightarrow> None
      | c # ds \<Rightarrow>
          if c = CHR ''-'' then map_option (\<lambda>n. - int n) (digits_value 10 ds)
          else if c = CHR ''+'' then map_option int (digits_value 10 ds)
          else map_option int (digits_value 10 s))"

definition radix_prefix :: "string \<Rightarrow> nat option" where
  "radix_prefix t =
     (if take 2 t \<in> {''0x'', ''0X''} then Some 16
      else if take 2 t \<in> {''0o'', ''0O''} then Some 8
      else if take 2 t \<in> {''0b'', ''0B''} then Some 2
      else None)"

definition string_to_bigint :: "string \<Rightarrow> int option" where
  "string_to_bigint s =
     (let t = js_trim s in
      if t = [] then Some 0
      else case radix_prefix t of
             Some r \<Rightarrow> map_option int (digits_value r (drop 2 t))
           | None \<Rightarrow> decimal_literal t)"

definition bigint_to_string :: "int \<Rightarrow> string" where
  "bigint_to_string i =
     (if i < 0 then CHR ''-'' # show_radix 10 (nat (- i)) else show_radix 10 (nat i))"

text \<open>A non-negative amount as the 64 hex digits of an ABI-encoded 256-bit word.\<close>

definition hex_word :: "nat \<Rightarrow> string" where
  "hex_word n = (let s = show_radix 16 n in replicate (64 - length s) CHR ''0'' @ s)"

subsection \<open>Round trips\<close>

lemma digits_acc_append:
  "digits_acc r a (xs @ ys) = (case digits_acc r a xs of None \<Rightarrow> None | Some b \<Rightarrow> digits_acc r b ys)"
  by (induction xs arbitrary: a) (auto split: option.splits)

lemma radix_digit_digit_chars:
  assumes "d < r" "r \<le> 16"
  shows "radix_digit r (digit_chars ! d) = Some d"
proof -
  have "d < 16" using assms by simp
  then have "d \<in> set [0..<16]" by simp
  then have "\<forall>d \<in> set [0..<16]. d < r \<longrightarrow> radix_digit r (digit_chars ! d) = Some d"
    by (simp add: radix_digit_def digit_chars_def upt_rec)
  with assms \<open>d \<in> set [0..<16]\<close> show ?thesis by blast
qed

lemma digits_acc_show_radix:
  assumes "2 \<le> r" "r \<le> 16"
  shows "digits_acc r a (show_radix r n) = Some (a * r ^ length (show_radix r n) + n)"
  using assms
proof (induction r n arbitrary: a rule: show_radix.induct)
  case (1 r n)
  show ?case
  proof (cases "n < r")
    case True
    with "1.prems" show ?thesis
      by (simp add: show_radix.simps [of r n] radix_digit_digit_chars)
  next
    case False
    let ?s = "show_radix r (n div r)"
    from False "1.prems" have eq: "show_radix r n = ?s @ [digit_chars ! (n mod r)]"
      by (simp add: show_radix.simps [of r n])
    from False "1.prems" have IH: "digits_acc r a ?s = Some (a * r ^ length ?s + n div r)"
      using "1.IH" by simp
    have "(a * r ^ length ?s + n div r) * r + n mod r = a * r ^ Suc (length ?s) + n"
      by (simp add: algebra_simps)
    with IH eq "1.prems" show ?thesis
      by (simp add: digits_acc_append radix_digit_digit_chars)
  qed
qed

lemma show_radix_small: "n < r \<Longrightarrow> show_radix r n = [digit_chars ! n]"
  by (simp add: show_radix.simps [of r n])

lemma show_radix_step:
  "2 \<le> r \<Longrightarrow> r \<le> n \<Longrightarrow> show_radix r n = show_radix r (n div r) @ [digit_chars ! (n mod r)]"
  by (simp add: show_radix.simps [of r n])

lemmas show_radix_eval = show_radix_small show_radix_step

lemma show_radix_nonempty [simp]: "show_radix r n \<noteq> []"
  by (subst show_radix.simps) simp

lemma show_radix_chars:
  "2 \<le> r \<Longrightarrow> r \<le> 16 \<Longrightarrow> set (show_radix r n) \<subseteq> set (take r digit_chars)"
proof (induction r n rule: show_radix.induct)
  case (1 r n)
  have "\<And>d. d < r \<Longrightarrow> digit_chars ! d \<in> set (take r digit_chars)"
    using "1.prems" by (simp add: digit_chars_def in_set_conv_nth) (metis nth_take)
  with "1.prems" "1.IH" show ?case
    by (subst show_radix.simps) auto
qed

lemma digits_value_show_radix:
  "2 \<le> r \<Longrightarrow> r \<le> 16 \<Longrightarrow> digits_value r (show_radix r n) = Some n"
  by (simp add: digits_value_def digits_acc_show_radix)

lemma dropWhile_none: "\<forall>c\<in>set s. \<not> P c \<Longrightarrow> dropWhile P s = s"
  by (induction s) auto

lemma js_trim_id: "\<forall>c\<in>set s. \<not> js_ws c \<Longrightarrow> js_trim s = s"
  by (simp add: js_trim_def dropWhile_none)

lemma decimal_chars: "set (take 10 digit_chars) = set ''0123456789''"
  by (simp add: digit_chars_def)

lemma show_decimal_chars: "set (show_radix 10 n) \<subseteq> set ''0123456789''"
  using show_radix_chars [of 10 n] by (simp only: decimal_chars)

lemma decimal_literal_unsigned:
  "c \<notin> {CHR ''-'', CHR ''+''} \<Longrightarrow> decimal_literal (c # cs) = map_option int (digits_value 10 (c # cs))"
  by (simp add: decimal_literal_def)

lemma no_radix_prefix:
  assumes "set t \<subseteq> set ''0123456789'' \<union> {CHR ''-''}"
  shows "radix_prefix t = None"
proof -
  have "take 2 t \<notin> {''0x'', ''0X'', ''0o'', ''0O'', ''0b'', ''0B''}"
  proof
    assume "take 2 t \<in> {''0x'', ''0X'', ''0o'', ''0O'', ''0b'', ''0B''}"
    then have "\<exists>b \<in> set ''xXoObB''. b \<in> set (take 2 t)" by auto
    then obtain b where b: "b \<in> set ''xXoObB''" and "b \<in> set (take 2 t)" by blast
    then have "b \<in> set t" using set_take_subset by fast
    with assms b show False by auto
  qed
  then show ?thesis by (simp add: radix_prefix_def)
qed

lemma string_to_bigint_bigint_to_string: "string_to_bigint (bigint_to_string i) = Some i"
proof -
  let ?D = "set ''0123456789''"
  have ws: "\<And>t. set t \<subseteq> ?D \<union> {CHR ''-''} \<Longrightarrow> js_trim t = t"
    by (rule js_trim_id) (auto simp: js_ws_def)
  obtain c cs where s: "show_radix 10 (nat \<bar>i\<bar>) = c # cs"
    by (cases "show_radix 10 (nat \<bar>i\<bar>)") auto
  have csD: "set (c # cs) \<subseteq> ?D"
    using show_decimal_chars [of "nat \<bar>i\<bar>"] s by simp
  have v: "digits_value 10 (c # cs) = Some (nat \<bar>i\<bar>)"
    using digits_value_show_radix [of 10 "nat \<bar>i\<bar>"] s by simp
  show ?thesis
  proof (cases "i < 0")
    case True
    let ?t = "CHR ''-'' # c # cs"
    have t: "bigint_to_string i = ?t" using True s by (simp add: bigint_to_string_def)
    have sub: "\<And>A x t. set t \<subseteq> A \<Longrightarrow> set (x # t) \<subseteq> A \<union> {x}" by auto
    have tD: "set ?t \<subseteq> ?D \<union> {CHR ''-''}" by (rule sub [OF csD])
    have d: "decimal_literal ?t = Some i" using True v by (simp add: decimal_literal_def)
    show ?thesis
      unfolding string_to_bigint_def Let_def t ws [OF tD]
      using no_radix_prefix [OF tD] d by simp
  next
    case False
    have t: "bigint_to_string i = c # cs" using False s by (simp add: bigint_to_string_def)
    have tD: "set (c # cs) \<subseteq> ?D \<union> {CHR ''-''}" using csD by (rule le_supI1)
    have "c \<in> ?D" using csD by simp
    then have "c \<notin> {CHR ''-'', CHR ''+''}" by auto
    then have d: "decimal_literal (c # cs) = Some i"
      using False v by (simp add: decimal_literal_unsigned)
    show ?thesis
      unfolding string_to_bigint_def Let_def t ws [OF tD]
      using no_radix_prefix [OF tD] d by simp
  qed
qed

lemma show_radix_length:
  "2 \<le> r \<Longrightarrow> n < r ^ k \<Longrightarrow> 0 < k \<Longrightarrow> length (show_radix r n) \<le> k"
proof (induction r n arbitrary: k rule: show_radix.induct)
  case (1 r n)
  show ?case
  proof (cases "n < r")
    case True
    with "1.prems" show ?thesis by (simp add: show_radix.simps [of r n])
  next
    case False
    then obtain k' where k: "k = Suc k'" using "1.prems" by (cases k) auto
    from "1.prems" k have lt: "n div r < r ^ k'"
      by (simp add: div_less_iff_less_mult mult.commute)
    from False "1.prems" have "0 < n div r" by (simp add: div_greater_zero_iff)
    with lt have "0 < k'" by (cases k') auto
    with lt "1.IH" False "1.prems" have "length (show_radix r (n div r)) \<le> k'" by simp
    with False "1.prems" k show ?thesis by (simp add: show_radix.simps [of r n])
  qed
qed

lemma digits_acc_zeros:
  "0 < r \<Longrightarrow> digits_acc r 0 (replicate m CHR ''0'' @ s) = digits_acc r 0 s"
  by (induction m) (simp_all add: radix_digit_def)

lemma hex_word_length: "n < 16 ^ 64 \<Longrightarrow> length (hex_word n) = 64"
  using show_radix_length [of 16 n 64] by (simp add: hex_word_def Let_def)

lemma hex_word_value: "digits_value 16 (hex_word n) = Some n"
  by (simp add: hex_word_def Let_def digits_value_def digits_acc_zeros digits_acc_show_radix)

lemma hex_word_chars: "set (hex_word n) \<subseteq> set digit_chars"
proof -
  have "set (show_radix 16 n) \<subseteq> set digit_chars"
    using show_radix_chars [of 16 n] by (simp add: digit_chars_def)
  moreover have "CHR ''0'' \<in> set digit_chars" by (simp add: digit_chars_def)
  ultimately show ?thesis by (auto simp: hex_word_def Let_def)
qed

lemma string_to_bigint_hex_word: "string_to_bigint (''0x'' @ hex_word n) = Some (int n)"
proof -
  have "\<forall>c\<in>set (''0x'' @ hex_word n). \<not> js_ws c"
  proof
    fix c assume "c \<in> set (''0x'' @ hex_word n)"
    then have "c \<in> set (''0x'' @ digit_chars)" using hex_word_chars by auto
    then show "\<not> js_ws c" by (simp add: digit_chars_def js_ws_def) (elim disjE; simp)
  qed
  then have "js_trim (''0x'' @ hex_word n) = ''0x'' @ hex_word n" by (rule js_trim_id)
  then show ?thesis by (simp add: string_to_bigint_def radix_prefix_def hex_word_value)
qed

end
