(* ===== verification/Tables.thy ===== *)
theory Tables
  imports BigIntStr
begin

text \<open>
  The rows of the three MySQL tables the pipeline uses (\<open>src/src/models/scanTask.ts\<close>,
  \<open>eventData.ts\<close>, \<open>user.ts\<close>), the log objects the ethers provider returns, and
  the store: each table is the list of its rows in storage order, so that
  \<open>SELECT ... LIMIT n\<close> without \<open>ORDER BY\<close> reads the first rows of the list and
  \<open>UPDATE ... WHERE\<close> is \<^const>\<open>update_where\<close>. Field names carry a prefix
  (\<open>task_\<close>, \<open>ev_\<close>, \<open>u_\<close>, \<open>log_\<close>) where two tables share a column name.
  Block numbers, indices and timestamps are JavaScript numbers that stay below
  \<open>2^53\<close>; they are modelled as unbounded integers.
\<close>

record scan_task =
  task_chain_id :: chain_id
  task_address :: address
  task_from_block :: block_num
  task_event_type :: string
  task_event_keccak :: string

record event_data =
  ev_id :: nat
  ev_chain_id :: chain_id
  ev_sender :: address
  ev_event_type :: string
  ev_address :: address
  ev_topic0 :: hexstr
  ev_topic1 :: hexstr
  ev_topic2 :: hexstr
  ev_topic3 :: hexstr
  ev_data :: hexstr
  ev_log_index :: int
  ev_tx_hash :: hexstr
  ev_block_number :: block_num
  ev_timestamp :: int
  ev_tx_index :: int
  ev_version :: int

record user_row =
  u_address :: address
  total_staked :: string
  total_unstaked :: string
  current_staked :: string

text \<open>An ethers \<open>Log\<close>, as far as the scanner reads it.\<close>

record eth_log =
  log_topics :: "hexstr list"
  log_removed :: bool
  log_address :: address
  log_data :: hexstr
  log_tx_hash :: hexstr
  log_block_number :: block_num
  log_index :: int
  log_tx_index :: int

text \<open>
  The store. \<open>next_event_id\<close> is the auto-increment counter of \<open>event_data.id\<close>;
  a freshly inserted event row has \<open>version = 0\<close> (the column default: the
  scanner never writes the column).
\<close>

record store =
  scan_tasks :: "scan_task list"
  event_rows :: "event_data list"
  users :: "user_row list"
  next_event_id :: nat

text \<open>The deduplication key the scanner checks before staging a record.\<close>

definition event_key :: "event_data \<Rightarrow> chain_id \<times> string \<times> hexstr" where
  "event_key e = (ev_chain_id e, ev_event_type e, ev_tx_hash e)"

text \<open>Processed flag: the parser selects rows with \<open>version = 0\<close> and sets it to 1.\<close>

definition unprocessed :: "event_data \<Rightarrow> bool" where
  "unprocessed e \<longleftrightarrow> ev_version e = 0"

text \<open>Ids of the stored events are distinct and below the auto-increment counter.\<close>

definition ids_ok :: "store \<Rightarrow> bool" where
  "ids_ok s \<longleftrightarrow> distinct (map ev_id (event_rows s)) \<and> (\<forall>e\<in>set (event_rows s). ev_id e < next_event_id s)"

end
