(* ===== verification/Scanner.thy ===== *)
theory Scanner
  imports Tables
begin

text \<open>
  ChainScanner: the read phase of \<open>BlockchainService.syncEvents\<close>
  (\<open>src/src/services/blockchain.ts\<close>, lines 54 to 230). The scan tasks are grouped by
  chain; for every chain, concurrently, an RPC endpoint is picked, the head is read, a
  window \<open>[from, to]\<close> is computed, the logs are fetched and each log is matched
  against the chain's tasks; a matched log whose \<open>(chain, event type, tx hash)\<close> is
  not yet stored is staged as an \<open>event_data\<close> row. The scan phase only reads the
  store, so the concurrent per-chain scans are modelled one after the other on the same
  snapshot. What the JSON-RPC endpoints answer (head, logs, transactions, blocks), which
  endpoint \<open>Math.random\<close> picks, and \<open>keccak256\<close> are inputs (\<open>rpc_env\<close>): a
  \<open>None\<close> answer is a rejected promise.
\<close>

record chain_config =
  rpc_pool_map :: "chain_id \<Rightarrow> string list option"
  block_range :: int
  block_delayed :: int
  sync_interval :: int

record log_filter =
  f_address :: "address list"
  f_from :: block_num
  f_to :: block_num
  f_topics :: "hexstr list list"

record rpc_env =
  pick :: "chain_id \<Rightarrow> nat"
  head_of :: "string \<Rightarrow> block_num option"
  logs_of :: "string \<Rightarrow> log_filter \<Rightarrow> eth_log list option"
  tx_from :: "string \<Rightarrow> hexstr \<Rightarrow> address option option"
  block_ts :: "string \<Rightarrow> block_num \<Rightarrow> int option option"
  keccak :: "string \<Rightarrow> hexstr"

subsection \<open>Grouping the tasks by chain\<close>

record task_groups =
  chain_ids :: "chain_id list"
  from_of :: "chain_id \<Rightarrow> block_num option"
  contracts_of :: "chain_id \<Rightarrow> address list option"
  tasks_of :: "chain_id \<Rightarrow> scan_task list option"

definition no_groups :: task_groups where
  "no_groups = \<lparr>chain_ids = [], from_of = Map.empty, contracts_of = Map.empty, tasks_of = Map.empty\<rparr>"

text \<open>\<open>!currentFrom\<close>: an absent entry and a stored 0 are both falsy.\<close>

definition js_falsy_num :: "int option \<Rightarrow> bool" where
  "js_falsy_num v \<longleftrightarrow> v = None \<or> v = Some 0"

definition get_list :: "('k \<Rightarrow> 'v list option) \<Rightarrow> 'k \<Rightarrow> 'v list" where
  "get_list m k = (case m k of None \<Rightarrow> [] | Some l \<Rightarrow> l)"

text \<open>One iteration of the \<open>for (const task of scanTasks)\<close> loop.\<close>

definition group_step :: "task_groups \<Rightarrow> scan_task \<Rightarrow> task_groups" where
  "group_step g t =
     (let c = task_chain_id t;
          contracts = get_list (contracts_of g) c;
          g1 = (if task_address t \<notin> set contracts
                then g\<lparr>contracts_of := (contracts_of g)(c \<mapsto> contracts @ [task_address t]),
                       chain_ids := (if c \<in> set (chain_ids g) then chain_ids g else chain_ids g @ [c])\<rparr>
                else g);
          cur = from_of g1 c;
          g2 = (if js_falsy_num cur \<or> task_from_block t < the cur
                then g1\<lparr>from_of := (from_of g1)(c \<mapsto> task_from_block t)\<rparr> else g1)
      in g2\<lparr>tasks_of := (tasks_of g2)(c \<mapsto> get_list (tasks_of g2) c @ [t])\<rparr>)"

definition group_tasks :: "scan_task list \<Rightarrow> task_groups" where
  "group_tasks ts = fold (\<lambda>t g. group_step g t) ts no_groups"

subsection \<open>The scan window\<close>

text \<open>\<open>toBlock = head - blockDelayed\<close>; skip when \<open>toBlock <= 0 || toBlock < from\<close>;
  clamp to \<open>from + blockRange\<close>.\<close>

definition scan_window :: "block_num \<Rightarrow> block_num \<Rightarrow> int \<Rightarrow> int \<Rightarrow> block_num option" where
  "scan_window from_blk head delayed span =
     (let to = head - delayed in
      if to \<le> 0 \<or> to < from_blk then None
      else Some (if from_blk + span < to then from_blk + span else to))"

text \<open>
  The cycles of \<open>syncEvents\<close> for one chain while its head stays where it is: each cycle
  scans the window from the watermark and moves the watermark to \<open>toBlock + 1\<close>
  (lines 234 to 240), until the window is skipped because the scan has caught up. The
  result lists the window ends; \<open>None\<close> is a run that never catches up.
\<close>

partial_function (option) catch_up :: "block_num \<Rightarrow> block_num \<Rightarrow> int \<Rightarrow> int \<Rightarrow> block_num list option" where
  "catch_up fb head lag span =
     (case scan_window fb head lag span of
        None \<Rightarrow> Some []
      | Some to \<Rightarrow> Option.bind (catch_up (to + 1) head lag span) (\<lambda>ws. Some (to # ws)))"

subsection \<open>Matching logs against tasks\<close>

text \<open>\<open>queryBuilder.count('event_data', {chain_id, event_type, tx_hash})\<close>.\<close>

definition event_count :: "store \<Rightarrow> chain_id \<Rightarrow> string \<Rightarrow> hexstr \<Rightarrow> nat" where
  "event_count st c et tx =
     length (filter (\<lambda>e. ev_chain_id e = c \<and> ev_event_type e = et \<and> ev_tx_hash e = tx) (event_rows st))"

text \<open>\<open>topics[i] || ''\<close>\<close>

definition topic_or_empty :: "hexstr list \<Rightarrow> nat \<Rightarrow> hexstr" where
  "topic_or_empty ts i = (if i < length ts then ts ! i else [])"

text \<open>The row pushed for a matched log; \<open>tx?.from || '0x0'\<close>, \<open>block?.timestamp || 0\<close>.
  The id and version are set by the store on insert.\<close>

definition staged_event :: "chain_id \<Rightarrow> scan_task \<Rightarrow> eth_log \<Rightarrow> address option \<Rightarrow> int option \<Rightarrow> event_data" where
  "staged_event c t lg sender ts =
     (let topics = map js_lower (log_topics lg) in
      \<lparr>ev_id = 0, ev_chain_id = c,
       ev_sender = (case sender of Some a \<Rightarrow> if a = [] then ''0x0'' else a | None \<Rightarrow> ''0x0''),
       ev_event_type = task_event_type t, ev_address = log_address lg,
       ev_topic0 = topic_or_empty topics 0, ev_topic1 = topic_or_empty topics 1,
       ev_topic2 = topic_or_empty topics 2, ev_topic3 = topic_or_empty topics 3,
       ev_data = js_lower (log_data lg), ev_log_index = log_index lg, ev_tx_hash = log_tx_hash lg,
       ev_block_number = log_block_number lg,
       ev_timestamp = (case ts of Some v \<Rightarrow> v | None \<Rightarrow> 0),
       ev_tx_index = log_tx_index lg, ev_version = 0\<rparr>)"

text \<open>The inner \<open>for (const task of tasks)\<close> loop: a task that does not match, or whose
  record already exists, is skipped (\<open>continue\<close>); the first new match is staged
  (\<open>break\<close>). A rejected \<open>getTransaction\<close> or \<open>getBlock\<close> is an \<open>Inl\<close>.\<close>

fun match_log :: "rpc_env \<Rightarrow> string \<Rightarrow> store \<Rightarrow> chain_id \<Rightarrow> eth_log \<Rightarrow> scan_task list \<Rightarrow>
    js_error + event_data option" where
  "match_log env rpc st c lg [] = Inr None"
| "match_log env rpc st c lg (t # ts) =
     (if hd (log_topics lg) \<noteq> keccak env (task_event_keccak t)
         \<or> js_lower (log_address lg) \<noteq> js_lower (task_address t)
      then match_log env rpc st c lg ts
      else if 0 < event_count st c (task_event_type t) (log_tx_hash lg)
      then match_log env rpc st c lg ts
      else (case tx_from env rpc (log_tx_hash lg) of
              None \<Rightarrow> Inl RpcFailure
            | Some sender \<Rightarrow>
                (case block_ts env rpc (log_block_number lg) of
                   None \<Rightarrow> Inl RpcFailure
                 | Some ts \<Rightarrow> Inr (Some (staged_event c t lg sender ts)))))"

text \<open>The outer \<open>for (const log of logs)\<close> loop; logs without topics or marked
  \<open>removed\<close> are skipped.\<close>

fun scan_logs :: "rpc_env \<Rightarrow> string \<Rightarrow> store \<Rightarrow> chain_id \<Rightarrow> scan_task list \<Rightarrow> eth_log list \<Rightarrow>
    js_error + event_data list" where
  "scan_logs env rpc st c tasks [] = Inr []"
| "scan_logs env rpc st c tasks (lg # lgs) =
     (if log_topics lg = [] \<or> log_removed lg then scan_logs env rpc st c tasks lgs
      else (case match_log env rpc st c lg tasks of
              Inl e \<Rightarrow> Inl e
            | Inr None \<Rightarrow> scan_logs env rpc st c tasks lgs
            | Inr (Some ev) \<Rightarrow>
                (case scan_logs env rpc st c tasks lgs of
                   Inl e \<Rightarrow> Inl e
                 | Inr evs \<Rightarrow> Inr (ev # evs))))"

subsection \<open>One chain, all chains\<close>

text \<open>What one chain's async function leaves in \<open>chainToEventData\<close> and
  \<open>chainToToBlock\<close>: nothing (no RPC configured, an invalid range, or an error caught
  by its \<open>try\<close>), or the staged rows and the next watermark \<open>toBlock + 1\<close>.\<close>

datatype chain_outcome = NoRpc | BadRange | ScanFailed | Scanned "event_data list" block_num

definition scan_chain :: "chain_config \<Rightarrow> rpc_env \<Rightarrow> store \<Rightarrow> task_groups \<Rightarrow> chain_id \<Rightarrow>
    js_error + chain_outcome" where
  "scan_chain cfg env st g c =
     (case rpc_pool_map cfg c of
        None \<Rightarrow> Inr NoRpc
      | Some pool \<Rightarrow>
          if pool = [] then Inr NoRpc
          else
            (let rpc = pool ! (pick env c mod length pool);
                 from_blk = (case from_of g c of None \<Rightarrow> 0 | Some v \<Rightarrow> v)
             in case head_of env rpc of
                  None \<Rightarrow> Inl RpcFailure
                | Some head \<Rightarrow>
                    (case scan_window from_blk head (block_delayed cfg) (block_range cfg) of
                       None \<Rightarrow> Inr BadRange
                     | Some to \<Rightarrow>
                         (let tasks = get_list (tasks_of g) c;
                              flt = \<lparr>f_address = get_list (contracts_of g) c, f_from = from_blk, f_to = to,
                                     f_topics = [js_set_list (map (\<lambda>t. keccak env (task_event_keccak t)) tasks)]\<rparr>
                          in case logs_of env rpc flt of
                               None \<Rightarrow> Inr ScanFailed
                             | Some logs \<Rightarrow>
                                 (case scan_logs env rpc st c tasks logs of
                                    Inl _ \<Rightarrow> Inr ScanFailed
                                  | Inr evs \<Rightarrow> Inr (Scanned evs (to + 1)))))))"

text \<open>\<open>await Promise.all(chainIds.map(...))\<close>: it rejects as soon as one chain's
  function rejects; only \<open>getLatestBlock\<close> lies outside the per-chain \<open>try\<close>.\<close>

fun scan_phase :: "chain_config \<Rightarrow> rpc_env \<Rightarrow> store \<Rightarrow> task_groups \<Rightarrow> chain_id list \<Rightarrow>
    js_error + (chain_id \<times> chain_outcome) list" where
  "scan_phase cfg env st g [] = Inr []"
| "scan_phase cfg env st g (c # cs) =
     (case scan_chain cfg env st g c of
        Inl e \<Rightarrow> Inl e
      | Inr o1 \<Rightarrow> (case scan_phase cfg env st g cs of Inl e \<Rightarrow> Inl e | Inr os \<Rightarrow> Inr ((c, o1) # os)))"

subsection \<open>Grouping invariant and fixtures\<close>

definition groups_ok :: "scan_task list \<Rightarrow> task_groups \<Rightarrow> bool" where
  "groups_ok ts g \<longleftrightarrow>
     dom (contracts_of g) = task_chain_id ` set ts \<and> set (chain_ids g) = task_chain_id ` set ts \<and>
     distinct (chain_ids g) \<and>
     tasks_of g = (\<lambda>c. if c \<in> task_chain_id ` set ts then Some (filter (\<lambda>t. task_chain_id t = c) ts) else None)"

definition zero_task :: scan_task where
  "zero_task = \<lparr>task_chain_id = 1, task_address = ''0xc'', task_from_block = 0,
                task_event_type = ''Staked'', task_event_keccak = ''Staked(address,uint256)''\<rparr>"

subsection \<open>Lemmas\<close>

lemma event_count_zero:
  "event_count st c et tx = 0 \<longleftrightarrow> (c, et, tx) \<notin> event_key ` set (event_rows st)"
  by (auto simp: event_count_def event_key_def filter_empty_conv)

lemma match_log_new:
  "match_log env rpc st c lg tasks = Inr (Some e) \<Longrightarrow>
   ev_chain_id e = c \<and> event_count st c (ev_event_type e) (ev_tx_hash e) = 0"
  by (induction tasks) (auto simp: staged_event_def Let_def split: if_splits option.splits)

lemma scan_logs_new:
  "scan_logs env rpc st c tasks logs = Inr evs \<Longrightarrow> e \<in> set evs \<Longrightarrow>
   ev_chain_id e = c \<and> event_count st c (ev_event_type e) (ev_tx_hash e) = 0"
proof (induction logs arbitrary: evs)
  case Nil
  then show ?case by simp
next
  case (Cons lg lgs)
  then show ?case
    by (auto split: if_splits sum.splits option.splits dest: match_log_new)
qed

lemma scan_window_from: "0 \<le> span \<Longrightarrow> scan_window fb head lag span = Some to \<Longrightarrow> fb \<le> to"
  by (auto simp: scan_window_def Let_def split: if_splits)

text \<open>C25: the scan window. When \<open>scanChain\<close> does not skip the chain and the block span is
  not negative, the window \<open>[from, to]\<close> it scans starts at the watermark, spans at most
  \<open>blockRange\<close> blocks beyond it, ends at or below \<open>head - blockDelayed\<close>, and the next
  watermark \<open>to + 1\<close> lies strictly above the current one. The witness is the example of the
  specification: watermark 100, head 210, lag 6, span 100 give \<open>to = 200\<close>.\<close>

theorem scan_window_bounds:
  assumes "0 \<le> span" and "scan_window fb head lag span = Some to"
  shows "fb \<le> to \<and> to \<le> fb + span \<and> to \<le> head - lag \<and> fb < to + 1"
  using assms by (auto simp: scan_window_def Let_def split: if_splits)

lemma scan_window_bounds_witness:
  "scan_window 100 210 6 100 = Some 200 \<and> (100::int) \<le> 200 \<and> (200::int) \<le> 100 + 100"
  using scan_window_bounds [where span = 100 and fb = 100 and head = 210 and lag = 6 and to = 200]
  by (simp add: scan_window_def)

lemma scan_phase_member:
  "scan_phase cfg env st g cs = Inr outs \<Longrightarrow> (c, r) \<in> set outs \<Longrightarrow> scan_chain cfg env st g c = Inr r"
  by (induction cs arbitrary: outs) (auto split: sum.splits)

lemma scan_chain_window:
  assumes "scan_chain cfg env st g c = Inr (Scanned evs nxt)"
  obtains head to where
    "scan_window (case from_of g c of None \<Rightarrow> 0 | Some v \<Rightarrow> v) head (block_delayed cfg) (block_range cfg) = Some to"
    and "nxt = to + 1"
  using assms by (auto simp: scan_chain_def Let_def split: option.splits if_splits sum.splits)

lemma scan_window_negative: "span < 0 \<Longrightarrow> scan_window fb head lag span = Some to \<Longrightarrow> to = fb + span"
  by (auto simp: scan_window_def Let_def split: if_splits)

lemma scan_chain_scanned:
  assumes "scan_chain cfg env st g c = Inr (Scanned evs nxt)"
  shows "(\<forall>e\<in>set evs. ev_chain_id e = c \<and> event_key e \<notin> event_key ` set (event_rows st)) \<and>
         (0 \<le> block_range cfg \<longrightarrow> (case from_of g c of None \<Rightarrow> 0 | Some v \<Rightarrow> v) < nxt)"
proof -
  let ?fb = "case from_of g c of None \<Rightarrow> 0 | Some v \<Rightarrow> v"
  obtain rpc head to tasks logs where
    w: "scan_window ?fb head (block_delayed cfg) (block_range cfg) = Some to"
    and l: "scan_logs env rpc st c tasks logs = Inr evs" and n: "nxt = to + 1"
    using assms by (auto simp: scan_chain_def Let_def split: option.splits if_splits sum.splits)
  have "\<forall>e\<in>set evs. ev_chain_id e = c \<and> event_key e \<notin> event_key ` set (event_rows st)"
    using scan_logs_new [OF l] event_count_zero by (auto simp: event_key_def)
  moreover have "0 \<le> block_range cfg \<longrightarrow> ?fb < nxt" using scan_window_from [OF _ w] n by simp
  ultimately show ?thesis by blast
qed

lemma group_tasks_snoc: "group_tasks (ts @ [t]) = group_step (group_tasks ts) t"
  by (simp add: group_tasks_def)

lemma tasks_of_step:
  "tasks_of (group_step g t) = (tasks_of g)(task_chain_id t \<mapsto> get_list (tasks_of g) (task_chain_id t) @ [t])"
  by (simp add: group_step_def Let_def)

lemma chain_ids_step:
  assumes that: "dom (contracts_of g) = set (chain_ids g)"
  shows "chain_ids (group_step g t) =
     (if task_chain_id t \<in> set (chain_ids g) then chain_ids g else chain_ids g @ [task_chain_id t]) \<and>
   dom (contracts_of (group_step g t)) = insert (task_chain_id t) (dom (contracts_of g))"
proof (cases "contracts_of g (task_chain_id t)")
  case None
  then show ?thesis using that by (auto simp: group_step_def Let_def get_list_def)
next
  case (Some cs)
  then have "task_chain_id t \<in> set (chain_ids g)" using that by blast
  then show ?thesis using Some that by (auto simp: group_step_def Let_def get_list_def)
qed

lemma groups_ok_step:
  assumes "groups_ok ts g"
  shows "groups_ok (ts @ [t]) (group_step g t)"
proof -
  have d: "dom (contracts_of g) = set (chain_ids g)" using assms by (simp add: groups_ok_def)
  have c: "dom (contracts_of (group_step g t)) = task_chain_id ` set (ts @ [t]) \<and>
        set (chain_ids (group_step g t)) = task_chain_id ` set (ts @ [t]) \<and>
        distinct (chain_ids (group_step g t))"
    using chain_ids_step [OF d, of t] assms by (auto simp: groups_ok_def)
  have "tasks_of (group_step g t) c' =
        (if c' \<in> task_chain_id ` set (ts @ [t]) then Some (filter (\<lambda>u. task_chain_id u = c') (ts @ [t])) else None)"
    for c'
  proof (cases "c' = task_chain_id t")
    case True
    have "filter (\<lambda>u. task_chain_id u = task_chain_id t) ts = []"
      if "task_chain_id t \<notin> task_chain_id ` set ts" using that
      by (simp add: filter_empty_conv) (metis image_eqI)
    then show ?thesis using assms True
      by (auto simp: groups_ok_def tasks_of_step get_list_def)
  next
    case False
    then show ?thesis using assms by (simp add: groups_ok_def tasks_of_step)
  qed
  then have "tasks_of (group_step g t) =
        (\<lambda>c'. if c' \<in> task_chain_id ` set (ts @ [t]) then Some (filter (\<lambda>u. task_chain_id u = c') (ts @ [t])) else None)"
    by (rule ext)
  then show ?thesis using c by (simp only: groups_ok_def)
qed

lemma groups_ok_group_tasks: "groups_ok ts (group_tasks ts)"
proof (induction ts rule: rev_induct)
  case Nil
  then show ?case by (simp add: groups_ok_def group_tasks_def no_groups_def)
next
  case (snoc t ts)
  then show ?case by (simp only: group_tasks_snoc groups_ok_step)
qed

text \<open>C28: grouping the tasks by chain. \<open>chainIds\<close> lists every chain of the tasks once,
  and \<open>chainIdToScanTasks\<close> maps each chain to its tasks in the order of the
  \<open>SELECT\<close>.\<close>

theorem group_tasks_partition:
  "set (chain_ids (group_tasks ts)) = task_chain_id ` set ts \<and> distinct (chain_ids (group_tasks ts)) \<and>
   (\<forall>c. tasks_of (group_tasks ts) c =
     (if c \<in> task_chain_id ` set ts then Some (filter (\<lambda>t. task_chain_id t = c) ts) else None))"
  using groups_ok_group_tasks [of ts] by (simp add: groups_ok_def)

lemma from_of_step:
  "from_of (group_step g t) c =
     (if c = task_chain_id t \<and> (js_falsy_num (from_of g c) \<or> task_from_block t < the (from_of g c))
      then Some (task_from_block t) else from_of g c)"
  by (simp add: group_step_def Let_def)

text \<open>C27: the effective watermark of a chain. When no task's \<open>from_block\<close> is 0, the
  grouping loop of \<open>syncEvents\<close> starts each chain's window at the least \<open>from_block\<close>
  of the chain's tasks, as the specification's ScanTask invariant says.\<close>

theorem group_tasks_from_of_min:
  "(\<forall>t\<in>set ts. task_from_block t \<noteq> 0) \<Longrightarrow>
   from_of (group_tasks ts) c =
     (if c \<in> task_chain_id ` set ts
      then Some (Min (set (map task_from_block (filter (\<lambda>t. task_chain_id t = c) ts)))) else None)"
proof (induction ts rule: rev_induct)
  case Nil
  then show ?case by (simp add: group_tasks_def no_groups_def)
next
  case (snoc t ts)
  then have IH: "from_of (group_tasks ts) c =
     (if c \<in> task_chain_id ` set ts
      then Some (Min (set (map task_from_block (filter (\<lambda>t. task_chain_id t = c) ts)))) else None)"
    and nz: "task_from_block t \<noteq> 0" by simp_all
  have pos: "Min (set (map task_from_block (filter (\<lambda>t. task_chain_id t = c) ts))) \<noteq> 0"
    if "c \<in> task_chain_id ` set ts"
  proof -
    have "set (map task_from_block (filter (\<lambda>t. task_chain_id t = c) ts)) \<noteq> {}" using that by auto
    then have "Min (set (map task_from_block (filter (\<lambda>t. task_chain_id t = c) ts)))
               \<in> set (map task_from_block (filter (\<lambda>t. task_chain_id t = c) ts))" by (rule Min_in [OF finite_set])
    then show ?thesis using snoc.prems by auto
  qed
  let ?M = "\<lambda>xs. set (map task_from_block (filter (\<lambda>t. task_chain_id t = c) xs))"
  show ?case
  proof (cases "c = task_chain_id t")
    case False
    then show ?thesis using IH by (simp add: group_tasks_snoc from_of_step)
  next
    case True
    show ?thesis
    proof (cases "c \<in> task_chain_id ` set ts")
      case False
      then have "?M ts = {}" by (auto simp: filter_empty_conv)
      then show ?thesis using IH False True by (simp add: group_tasks_snoc from_of_step js_falsy_num_def)
    next
      case old: True
      then have ne: "?M ts \<noteq> {}" by auto
      have "?M (ts @ [t]) = insert (task_from_block t) (?M ts)" using True by auto
      then have "Min (?M (ts @ [t])) = min (task_from_block t) (Min (?M ts))"
        using ne by (simp add: Min_insert)
      then show ?thesis using IH old True pos [OF old]
        by (simp add: group_tasks_snoc from_of_step js_falsy_num_def min_def)
    qed
  qed
qed

text \<open>C18: the zero watermark is overridden. \<open>!currentFrom\<close> treats a stored 0 as absent,
  so whenever the last task of a chain (in \<open>SELECT\<close> order) has a non-zero
  \<open>from_block\<close>, the chain's scan does not start at block 0, whatever the earlier tasks
  are: a task of that chain at block 0 listed before it never has its blocks from 0
  scanned, although the least \<open>from_block\<close> of the chain is 0.\<close>

theorem group_tasks_zero_watermark:
  assumes "task_chain_id t = c" and "task_from_block t \<noteq> 0"
  shows "from_of (group_tasks (ts @ [t])) c \<noteq> Some 0"
  using assms by (auto simp: group_tasks_snoc from_of_step js_falsy_num_def)

lemma group_tasks_zero_watermark_witness:
  "from_of (group_tasks [zero_task, zero_task\<lparr>task_from_block := 5\<rparr>]) 1 = Some 5 \<and>
   from_of (group_tasks ([zero_task] @ [zero_task\<lparr>task_from_block := 5\<rparr>])) 1 \<noteq> Some 0"
proof
  show "from_of (group_tasks [zero_task, zero_task\<lparr>task_from_block := 5\<rparr>]) 1 = Some 5"
    by (simp add: group_tasks_def group_step_def no_groups_def zero_task_def get_list_def js_falsy_num_def Let_def)
  show "from_of (group_tasks ([zero_task] @ [zero_task\<lparr>task_from_block := 5\<rparr>])) 1 \<noteq> Some 0"
    using group_tasks_zero_watermark [of "zero_task\<lparr>task_from_block := 5\<rparr>" 1 "[zero_task]"]
    by (simp add: zero_task_def)
qed

lemma group_tasks_min_witness:
  "from_of (group_tasks [zero_task\<lparr>task_from_block := 7\<rparr>, zero_task\<lparr>task_from_block := 5\<rparr>]) 1 = Some 5"
  using group_tasks_from_of_min [of "[zero_task\<lparr>task_from_block := 7\<rparr>, zero_task\<lparr>task_from_block := 5\<rparr>]" 1]
  by (simp add: zero_task_def)

lemma contracts_of_step:
  "contracts_of (group_step g t) =
     (if task_address t \<notin> set (get_list (contracts_of g) (task_chain_id t))
      then (contracts_of g)(task_chain_id t \<mapsto> get_list (contracts_of g) (task_chain_id t) @ [task_address t])
      else contracts_of g)"
  by (simp add: group_step_def Let_def)

lemma chain_ids_step_raw:
  "chain_ids (group_step g t) =
     (if task_address t \<notin> set (get_list (contracts_of g) (task_chain_id t)) \<and> task_chain_id t \<notin> set (chain_ids g)
      then chain_ids g @ [task_chain_id t] else chain_ids g)"
  by (simp add: group_step_def Let_def)

lemma from_of_step':
  "from_of (group_step g t) =
     (if js_falsy_num (from_of g (task_chain_id t)) \<or> task_from_block t < the (from_of g (task_chain_id t))
      then (from_of g)(task_chain_id t \<mapsto> task_from_block t) else from_of g)"
  by (simp add: group_step_def Let_def)

lemmas group_fields = contracts_of_step chain_ids_step_raw from_of_step' tasks_of_step

lemma from_of_in:
  "from_of (group_tasks ts) c = Some v \<Longrightarrow> v \<in> task_from_block ` set ts"
proof (induction ts arbitrary: v rule: rev_induct)
  case Nil
  then show ?case by (simp add: group_tasks_def no_groups_def)
next
  case (snoc t ts)
  then show ?case by (auto simp: group_tasks_snoc from_of_step split: if_splits)
qed


text \<open>C26: the scanner catches up. With a non-negative block range and a head that stays
  put, the cycles of one chain stop after finitely many windows, and when there was
  anything to scan the last window ends at \<open>head - blockDelayed\<close>. The witness is the
  example of the specification: from 100 with head 210, lag 6 and range 100 the windows
  end at 200 and then 204.\<close>

theorem catch_up_terminates:
  assumes "0 \<le> span"
  shows "\<exists>ws. catch_up fb head lag span = Some ws \<and>
           (0 < head - lag \<and> fb \<le> head - lag \<longrightarrow> ws \<noteq> [] \<and> last ws = head - lag)"
proof (induction "nat (head - lag + 1 - fb)" arbitrary: fb rule: less_induct)
  case less
  show ?case
  proof (cases "scan_window fb head lag span")
    case None
    then have "\<not> (0 < head - lag \<and> fb \<le> head - lag)" by (auto simp: scan_window_def Let_def)
    then show ?thesis using None by (simp add: catch_up.simps [of fb])
  next
    case (Some to)
    then have b: "fb \<le> to" "to \<le> head - lag" "0 < head - lag"
      using assms by (auto simp: scan_window_def Let_def split: if_splits)
    have "nat (head - lag + 1 - (to + 1)) < nat (head - lag + 1 - fb)" using b by simp
    then obtain ws where ws: "catch_up (to + 1) head lag span = Some ws"
      and l: "0 < head - lag \<and> to + 1 \<le> head - lag \<longrightarrow> ws \<noteq> [] \<and> last ws = head - lag"
      using less by blast
    have "last (to # ws) = head - lag"
    proof (cases "to + 1 \<le> head - lag")
      case True
      then show ?thesis using l b by simp
    next
      case False
      then have "scan_window (to + 1) head lag span = None" by (simp add: scan_window_def Let_def)
      then have "ws = []" using ws by (simp add: catch_up.simps [of "to + 1"])
      then show ?thesis using False b by simp
    qed
    then show ?thesis using Some ws by (simp add: catch_up.simps [of fb])
  qed
qed

lemma catch_up_terminates_witness:
  "(\<exists>ws. catch_up 100 210 6 100 = Some ws \<and> ws \<noteq> [] \<and> last ws = 204) \<and> catch_up 100 210 6 100 = Some [200, 204]"
proof
  show "\<exists>ws. catch_up 100 210 6 100 = Some ws \<and> ws \<noteq> [] \<and> last ws = 204"
    using catch_up_terminates [of 100 100 210 6] by simp
  have "catch_up 205 210 6 100 = Some []"
    by (simp add: catch_up.simps [of 205] scan_window_def)
  then have "catch_up 201 210 6 100 = Some [204]"
    by (simp add: catch_up.simps [of 201] scan_window_def)
  then show "catch_up 100 210 6 100 = Some [200, 204]"
    by (simp add: catch_up.simps [of 100] scan_window_def)
qed

end
