(* ===== verification/Scheduler.thy ===== *)
theory Scheduler
  imports Prelude
begin

text \<open>
  SyncScheduler and ParseScheduler: the re-entrancy guard and self-rescheduling of
  \<open>BlockchainService.syncEvents\<close> (\<open>src/src/services/blockchain.ts\<close>) and
  \<open>ParseService.syncParse\<close> (\<open>src/src/services/parse.ts\<close>), which share one
  pattern:
  \<^verbatim>\<open>
  if (this.isSyncing) return          // activation dropped, nothing rescheduled
  this.isSyncing = true
  try { ...cycle... } finally {
      this.isSyncing = false
      setTimeout(() => this.syncX(), interval)
  }
  \<close>
  JavaScript runs the guard and the flag update without an intervening await, so an
  activation is one atomic step; a cycle then runs until its \<open>finally\<close>, while other
  callbacks (timers, further calls) may run at its await points. The state counts the
  cycles between their activation and their \<open>finally\<close> (\<open>in_flight\<close>), the
  pending \<open>setTimeout\<close> callbacks (\<open>timers\<close>), the cycles begun and the activations
  dropped by the guard.
\<close>

record loop_state =
  is_syncing :: bool
  in_flight :: nat
  timers :: nat
  started :: nat
  dropped :: nat

definition loop_init :: loop_state where
  "loop_init = \<lparr>is_syncing = False, in_flight = 0, timers = 0, started = 0, dropped = 0\<rparr>"

text \<open>The activation: the guard and the flag update before the first await.\<close>

definition sf_activate :: "loop_state \<Rightarrow> loop_state" where
  "sf_activate s =
     (if is_syncing s then s\<lparr>dropped := Suc (dropped s)\<rparr>
      else s\<lparr>is_syncing := True, in_flight := Suc (in_flight s), started := Suc (started s)\<rparr>)"

text \<open>The \<open>finally\<close> block, run whether the cycle succeeded or threw.\<close>

definition sf_complete :: "loop_state \<Rightarrow> loop_state" where
  "sf_complete s = s\<lparr>is_syncing := False, in_flight := in_flight s - 1, timers := Suc (timers s)\<rparr>"

text \<open>
  Steps of one loop: a direct call (\<open>start()\<close> or any other caller), a timer
  callback firing, or a cycle reaching its \<open>finally\<close>.
\<close>

inductive loop_step :: "loop_state \<Rightarrow> loop_state \<Rightarrow> bool" where
  call: "loop_step s (sf_activate s)"
| fire: "0 < timers s \<Longrightarrow> loop_step s (sf_activate (s\<lparr>timers := timers s - 1\<rparr>))"
| complete: "0 < in_flight s \<Longrightarrow> loop_step s (sf_complete s)"

inductive loop_reach :: "loop_state \<Rightarrow> bool" where
  init: "loop_reach loop_init"
| step: "loop_reach s \<Longrightarrow> loop_step s t \<Longrightarrow> loop_reach t"

text \<open>The deployed loop: \<open>start()\<close> is called once, then only timers activate it.\<close>

inductive timer_step :: "loop_state \<Rightarrow> loop_state \<Rightarrow> bool" where
  fire: "0 < timers s \<Longrightarrow> timer_step s (sf_activate (s\<lparr>timers := timers s - 1\<rparr>))"
| complete: "0 < in_flight s \<Longrightarrow> timer_step s (sf_complete s)"

inductive started_reach :: "loop_state \<Rightarrow> bool" where
  start: "started_reach (sf_activate loop_init)"
| step: "started_reach s \<Longrightarrow> timer_step s t \<Longrightarrow> started_reach t"

text \<open>\<open>this.chainConfig.syncInterval || 60_000\<close>: a zero interval falls back to a minute.\<close>

definition sync_delay :: "int \<Rightarrow> int" where
  "sync_delay cfg = (if cfg = 0 then 60000 else cfg)"

definition flag_inv :: "loop_state \<Rightarrow> bool" where
  "flag_inv s \<longleftrightarrow> in_flight s = (if is_syncing s then 1 else 0)"

text \<open>In the timer-driven loop exactly one of a running cycle and a pending timer exists.\<close>

definition timer_inv :: "loop_state \<Rightarrow> bool" where
  "timer_inv s \<longleftrightarrow> flag_inv s \<and> timers s + in_flight s = 1 \<and> dropped s = 0"

inductive_cases loop_stepE: "loop_step s t"
inductive_cases timer_stepE: "timer_step s t"

lemma flag_inv_activate: "flag_inv s \<Longrightarrow> flag_inv (sf_activate s)"
  by (simp add: flag_inv_def sf_activate_def)

lemma flag_inv_complete: "flag_inv s \<Longrightarrow> 0 < in_flight s \<Longrightarrow> flag_inv (sf_complete s)"
  by (simp add: flag_inv_def sf_complete_def split: if_splits)

lemma flag_inv_timers [simp]: "flag_inv (s\<lparr>timers := n\<rparr>) = flag_inv s"
  by (simp add: flag_inv_def)

lemma flag_inv_step: "loop_step s t \<Longrightarrow> flag_inv s \<Longrightarrow> flag_inv t"
proof (induction rule: loop_step.induct)
  case (call s)
  then show ?case by (rule flag_inv_activate)
next
  case (fire s)
  then show ?case by (simp add: flag_inv_activate)
next
  case (complete s)
  then show ?case by (simp add: flag_inv_complete)
qed

lemma loop_reach_flag_inv: "loop_reach s \<Longrightarrow> flag_inv s"
proof (induction rule: loop_reach.induct)
  case init
  show ?case by (simp add: flag_inv_def loop_init_def)
next
  case (step s t)
  then show ?case by (blast intro: flag_inv_step)
qed

subsection \<open>Single flight and the timer loop\<close>

lemma timer_inv_start: "timer_inv (sf_activate loop_init)"
  by (simp add: timer_inv_def flag_inv_def sf_activate_def loop_init_def)

lemma timer_inv_step: "timer_step s t \<Longrightarrow> timer_inv s \<Longrightarrow> timer_inv t"
proof (induction rule: timer_step.induct)
  case (fire s)
  then have "in_flight s = 0" and "\<not> is_syncing s" by (auto simp: timer_inv_def flag_inv_def split: if_splits)
  with fire show ?case by (simp add: timer_inv_def flag_inv_def sf_activate_def)
next
  case (complete s)
  then have "timers s = 0" and "in_flight s = 1" by (auto simp: timer_inv_def)
  with complete show ?case by (simp add: timer_inv_def flag_inv_def sf_complete_def)
qed

lemma started_reach_timer_inv: "started_reach s \<Longrightarrow> timer_inv s"
proof (induction rule: started_reach.induct)
  case start
  show ?case by (rule timer_inv_start)
next
  case (step s t)
  then show ?case by (blast intro: timer_inv_step)
qed

text \<open>C4 (safety). Whatever interleaving of calls, timer callbacks and cycle completions
  occurs, at most one cycle is between its activation and its \<open>finally\<close>, and the flag
  \<open>isSyncing\<close> is set exactly while one is.\<close>

theorem single_flight:
  assumes "loop_reach s"
  shows "in_flight s \<le> 1 \<and> (is_syncing s \<longleftrightarrow> in_flight s = 1)"
  using loop_reach_flag_inv [OF assms] by (simp add: flag_inv_def)

lemma single_flight_witness:
  "in_flight (sf_activate (sf_activate loop_init)) \<le> 1 \<and> dropped (sf_activate (sf_activate loop_init)) = 1"
proof -
  have "loop_reach (sf_activate (sf_activate loop_init))"
    using loop_reach.step [OF loop_reach.step [OF loop_reach.init loop_step.call] loop_step.call] .
  then show ?thesis
    using single_flight [of "sf_activate (sf_activate loop_init)"]
    by (simp add: sf_activate_def loop_init_def)
qed

text \<open>Two activations before the first cycle completes start one cycle;
  the second returns at the guard without starting a cycle or scheduling a timer.\<close>

theorem overlapping_trigger_dropped:
  assumes "\<not> is_syncing s"
  shows "sf_activate (sf_activate s) =
         s\<lparr>is_syncing := True, in_flight := Suc (in_flight s), started := Suc (started s),
           dropped := Suc (dropped s)\<rparr>"
  using assms by (simp add: sf_activate_def)

lemma overlapping_trigger_dropped_witness:
  "started (sf_activate (sf_activate loop_init)) = 1 \<and> dropped (sf_activate (sf_activate loop_init)) = 1"
  using overlapping_trigger_dropped [of loop_init] by (simp add: loop_init_def)

text \<open>C30 (liveness). After \<open>start()\<close>, the timer-driven loop always has exactly one running
  cycle or one pending timer, never drops an activation, and from every state a
  further cycle is begun within at most two steps (completion, then the timer).\<close>

theorem timer_loop_alive:
  assumes "started_reach s"
  shows "timers s + in_flight s = 1 \<and> dropped s = 0 \<and> (\<exists>t. timer_step\<^sup>*\<^sup>* s t \<and> started t = Suc (started s))"
proof -
  have inv: "timer_inv s" using assms by (rule started_reach_timer_inv)
  have "\<exists>t. timer_step\<^sup>*\<^sup>* s t \<and> started t = Suc (started s)"
  proof (cases "in_flight s = 0")
    case True
    with inv have tm: "timers s = 1" and nr: "\<not> is_syncing s"
      by (auto simp: timer_inv_def flag_inv_def split: if_splits)
    let ?t = "sf_activate (s\<lparr>timers := timers s - 1\<rparr>)"
    have "timer_step s ?t" using tm by (intro timer_step.fire) simp
    moreover have "started ?t = Suc (started s)" using nr by (simp add: sf_activate_def)
    ultimately show ?thesis by blast
  next
    case False
    with inv have tm: "timers s = 0" and "in_flight s = 1"
      by (auto simp: timer_inv_def)
    let ?u = "sf_complete s"
    let ?t = "sf_activate (?u\<lparr>timers := timers ?u - 1\<rparr>)"
    have "timer_step s ?u" using False by (intro timer_step.complete) simp
    moreover have "timer_step ?u ?t" by (intro timer_step.fire) (simp add: sf_complete_def)
    moreover have "started ?t = Suc (started s)" by (simp add: sf_activate_def sf_complete_def)
    ultimately show ?thesis by (meson converse_rtranclp_into_rtranclp r_into_rtranclp)
  qed
  with inv show ?thesis by (simp add: timer_inv_def)
qed

lemma timer_loop_alive_witness:
  "timers (sf_complete (sf_activate loop_init)) + in_flight (sf_complete (sf_activate loop_init)) = 1"
proof -
  have "started_reach (sf_complete (sf_activate loop_init))"
    by (rule started_reach.step [OF started_reach.start], rule timer_step.complete)
       (simp add: sf_activate_def loop_init_def)
  then show ?thesis using timer_loop_alive by blast
qed

end
