(* ===== verification/Bootstrap.thy ===== *)
theory Bootstrap
  imports Scanner Scheduler
begin

text \<open>
  Start-up configuration of \<open>src/src/server.ts\<close> (compiled as \<open>src/dist/server.js\<close>):
  the \<open>chainConfig\<close> handed to \<open>BlockchainService\<close> and the interval handed to
  \<open>ParseService\<close>, read from \<open>process.env\<close> with \<open>process.env.X || 'default'\<close> and
  \<open>parseInt(s, 10)\<close>. The environment is a partial map from names to strings. A
  \<open>parseInt\<close> that yields \<open>NaN\<close> is \<open>None\<close>.
\<close>

type_synonym proc_env = "string \<Rightarrow> string option"

text \<open>\<open>process.env.K || d\<close>: an unset or empty variable gives the default.\<close>

definition env_or :: "proc_env \<Rightarrow> string \<Rightarrow> string \<Rightarrow> string" where
  "env_or env k d = (case env k of Some s \<Rightarrow> if s = [] then d else s | None \<Rightarrow> d)"


text \<open>
  \<open>parseInt(s, 10)\<close>: leading white space is skipped, one sign is read, then the
  longest prefix of decimal digits; no digit at all is \<open>NaN\<close>.
\<close>

definition js_parse_int :: "string \<Rightarrow> int option" where
  "js_parse_int s =
     (let t = dropWhile js_ws s;
          (neg, u) = (case t of
                        c # r \<Rightarrow> if c = CHR ''-'' then (True, r) else if c = CHR ''+'' then (False, r) else (False, t)
                      | [] \<Rightarrow> (False, []))
      in case digits_value 10 (takeWhile is_dec u) of
           None \<Rightarrow> None
         | Some n \<Rightarrow> Some (if neg then - int n else int n))"

definition default_rpc :: string where
  "default_rpc = ''https://mainnet.infura.io/v3/YOUR_PROJECT_ID''"

text \<open>
  \<open>chainConfig\<close> (\<open>server.ts\<close> lines 12--32). A \<open>NaN\<close> block range or lag leaves the
  model: the scan arithmetic would run on \<open>NaN\<close>, so that configuration is \<open>None\<close>.
  A \<open>NaN\<close> sync interval is kept as 0: its only use is \<open>syncInterval || 60_000\<close>
  (\<open>Scheduler.sync_delay\<close>), where \<open>NaN\<close> and 0 are both falsy.
\<close>

definition boot_config :: "proc_env \<Rightarrow> chain_config option" where
  "boot_config env =
     (case (js_parse_int (env_or env ''BLOCK_RANGE'' ''100''), js_parse_int (env_or env ''BLOCK_DELAYED'' ''6'')) of
        (Some r, Some d) \<Rightarrow>
          Some \<lparr>rpc_pool_map = [1 \<mapsto> [env_or env ''ETH_RPC_MAINNET'' default_rpc]], block_range = r,
                block_delayed = d,
                sync_interval = (case js_parse_int (env_or env ''SYNC_INTERVAL'' ''10000'') of
                                   Some i \<Rightarrow> i | None \<Rightarrow> 0)\<rparr>
      | _ \<Rightarrow> None)"

text \<open>The interval of \<open>new ParseService(parseInt(process.env.PARSE_INTERVAL || '30000', 10))\<close>.\<close>

definition parse_interval :: "proc_env \<Rightarrow> int option" where
  "parse_interval env = js_parse_int (env_or env ''PARSE_INTERVAL'' ''30000'')"

text \<open>The options of \<open>createPool\<close> in \<open>src/src/config/db.ts\<close>.\<close>

record pool_options =
  db_host :: string
  db_user :: string
  db_password :: string
  db_name :: string
  connection_limit :: nat

definition db_pool_options :: "proc_env \<Rightarrow> pool_options" where
  "db_pool_options env =
     \<lparr>db_host = env_or env ''DB_HOST'' ''localhost'', db_user = env_or env ''DB_USER'' ''root'',
      db_password = env_or env ''DB_PASSWORD'' [], db_name = env_or env ''DB_NAME'' ''blockchain_db'',
      connection_limit = 10\<rparr>"

text \<open>The environment in which no variable is set.\<close>

definition no_env :: proc_env where
  "no_env = (\<lambda>_. None)"

text \<open>An RPC endpoint whose head is 210 and that answers every \<open>getLogs\<close> with no log.\<close>

definition quiet_rpc :: rpc_env where
  "quiet_rpc = \<lparr>pick = (\<lambda>_. 0), head_of = (\<lambda>_. Some 210), logs_of = (\<lambda>_ _. Some []),
                tx_from = (\<lambda>_ _. None), block_ts = (\<lambda>_ _. None), keccak = (\<lambda>_. [])\<rparr>"

definition empty_store :: store where
  "empty_store = \<lparr>scan_tasks = [], event_rows = [], users = [], next_event_id = 0\<rparr>"

lemma decimal_char_props: "c \<in> set ''0123456789'' \<Longrightarrow> \<not> js_ws c \<and> is_dec c"
  by (simp add: js_ws_def is_dec_def) (elim disjE; simp)

lemma show_decimal_props: "\<forall>c\<in>set (show_radix 10 n). \<not> js_ws c \<and> is_dec c"
  using show_decimal_chars [of n] decimal_char_props by blast

lemma takeWhile_stop:
  "\<forall>c\<in>set s. P c \<Longrightarrow> t = [] \<or> \<not> P (hd t) \<Longrightarrow> takeWhile P (s @ t) = s"
proof (induction s)
  case Nil
  then show ?case by (cases t) auto
qed simp

text \<open>\<open>parseInt\<close> reads back a printed integer. For every integer \<open>i\<close>,
  \<open>parseInt(String(i) + t, 10) = i\<close> when \<open>t\<close> is empty or does not start with a
  decimal digit; so \<open>parseInt(String(i), 10) = i\<close>, and a unit suffix such as \<open>ms\<close>
  is ignored. For an integer, \<open>String\<close> prints the digits \<open>bigint_to_string\<close> does.\<close>

theorem js_parse_int_prefix:
  assumes "t = [] \<or> \<not> is_dec (hd t)"
  shows "js_parse_int (bigint_to_string i @ t) = Some i"
proof -
  let ?s = "\<lambda>n. show_radix 10 n"
  have hd: "\<And>n. \<exists>c r. ?s n = c # r \<and> c \<noteq> CHR ''-'' \<and> c \<noteq> CHR ''+'' \<and> \<not> js_ws c"
  proof -
    fix n
    obtain c r where cr: "?s n = c # r" using show_radix_nonempty by (cases "?s n") auto
    then have "c \<in> set ''0123456789''" using show_decimal_chars [of n] by auto
    then have "\<not> js_ws c" using decimal_char_props by blast
    moreover have "c \<noteq> CHR ''-'' \<and> c \<noteq> CHR ''+''"
      using \<open>c \<in> set ''0123456789''\<close> by auto
    ultimately show "?thesis n" using cr by blast
  qed
  have dv: "\<And>n. digits_value 10 (takeWhile is_dec (?s n @ t)) = Some n"
  proof -
    fix n
    have "takeWhile is_dec (?s n @ t) = ?s n"
      using show_decimal_props [of n] assms by (blast intro: takeWhile_stop)
    then show "?thesis n" by (simp add: digits_value_show_radix)
  qed
  show ?thesis
  proof (cases "i < 0")
    case True
    have "dropWhile js_ws (bigint_to_string i @ t) = CHR ''-'' # ?s (nat (- i)) @ t"
      using True by (simp add: bigint_to_string_def js_ws_def)
    then show ?thesis using True dv by (simp add: js_parse_int_def)
  next
    case False
    obtain c r where cr: "?s (nat i) = c # r" "c \<noteq> CHR ''-''" "c \<noteq> CHR ''+''" "\<not> js_ws c"
      using hd by blast
    have "dropWhile js_ws (bigint_to_string i @ t) = ?s (nat i) @ t"
      using False cr by (simp add: bigint_to_string_def)
    then show ?thesis using False cr dv [of "nat i"] by (simp add: js_parse_int_def)
  qed
qed

lemma js_parse_int_prefix_witness:
  "js_parse_int ''150ms'' = Some 150"
proof -
  have "bigint_to_string 150 = ''150''" by (simp add: bigint_to_string_def show_radix_eval digit_chars_def)
  moreover have "\<not> is_dec CHR ''m''" by (simp add: is_dec_def)
  ultimately show ?thesis using js_parse_int_prefix [of "''ms''" 150] by simp
qed

lemma parse_int_literals:
  "js_parse_int ''100'' = Some 100" "js_parse_int ''6'' = Some 6" "js_parse_int ''10000'' = Some 10000"
  "js_parse_int ''30000'' = Some 30000" "js_parse_int ''-5'' = Some (-5)" "js_parse_int ''abc'' = None"
  by (simp_all add: js_parse_int_def js_ws_def is_dec_def digits_value_def radix_digit_def)

lemma boot_config_default:
  "boot_config no_env = Some \<lparr>rpc_pool_map = [1 \<mapsto> [default_rpc]], block_range = 100,
      block_delayed = 6, sync_interval = 10000\<rparr> \<and> parse_interval no_env = Some 30000"
  by (simp add: boot_config_def parse_interval_def env_or_def no_env_def parse_int_literals)

lemma db_pool_default:
  "db_pool_options no_env = \<lparr>db_host = ''localhost'', db_user = ''root'', db_password = [],
      db_name = ''blockchain_db'', connection_limit = 10\<rparr>"
  by (simp add: db_pool_options_def env_or_def no_env_def)

lemma env_or_update:
  "env_or (no_env(k \<mapsto> v)) k' d = (if k' = k \<and> v \<noteq> [] then v else d)"
  by (simp add: env_or_def no_env_def)

text \<open>A non-numeric interval. \<open>SYNC_INTERVAL=abc\<close> makes \<open>syncInterval\<close> \<open>NaN\<close>,
  and \<open>syncInterval || 60_000\<close> falls back to a minute; \<open>PARSE_INTERVAL=abc\<close> hands
  \<open>NaN\<close> to \<open>ParseService\<close>, whose \<open>setTimeout\<close> has no fallback.\<close>

theorem nan_sync_interval:
  "map_option (\<lambda>c. sync_delay (sync_interval c)) (boot_config (no_env(''SYNC_INTERVAL'' \<mapsto> ''abc''))) = Some 60000
   \<and> parse_interval (no_env(''PARSE_INTERVAL'' \<mapsto> ''abc'')) = None"
  by (simp add: boot_config_def parse_interval_def env_or_update parse_int_literals sync_delay_def)

lemma boot_config_range:
  "boot_config env = Some cfg \<Longrightarrow> js_parse_int (env_or env ''BLOCK_RANGE'' ''100'') = Some (block_range cfg)"
  by (auto simp: boot_config_def split: option.splits)

text \<open>C32: a negative \<open>BLOCK_RANGE\<close> is accepted at start-up and makes the scanner move
  backwards. \<open>server.ts\<close> never checks the parsed range; when it is negative, every
  window that \<open>syncEvents\<close> scans for a chain (one for which the head read and
  \<open>getLogs\<close> answered) ends at \<open>from + range\<close>, below the watermark, and the next
  watermark \<open>toBlock + 1\<close> is at most the current one: it stays put for \<open>-1\<close> and
  moves back for anything lower.\<close>

theorem negative_range_rewinds:
  assumes "boot_config env = Some cfg" and "js_parse_int (env_or env ''BLOCK_RANGE'' ''100'') = Some r"
    and "r < 0" and "scan_chain cfg renv st g c = Inr (Scanned evs nxt)" and "from_of g c = Some fb"
  shows "nxt = fb + r + 1 \<and> nxt \<le> fb"
proof -
  have r: "block_range cfg = r" using boot_config_range [OF assms(1)] assms(2) by simp
  obtain head to where w: "scan_window fb head (block_delayed cfg) r = Some to" and n: "nxt = to + 1"
    using scan_chain_window [OF assms(4)] assms(5) r by auto
  have "to = fb + r" using scan_window_negative [OF assms(3) w] .
  then show ?thesis using n assms(3) by simp
qed

lemma negative_range_rewinds_witness:
  "scan_chain \<lparr>rpc_pool_map = [1 \<mapsto> [default_rpc]], block_range = -5, block_delayed = 6, sync_interval = 10000\<rparr>
     quiet_rpc empty_store (group_tasks [zero_task\<lparr>task_from_block := 100\<rparr>]) 1 = Inr (Scanned [] 96) \<and>
   (96::int) = 100 + (-5) + 1 \<and> (96::int) \<le> 100"
proof -
  let ?env = "no_env(''BLOCK_RANGE'' \<mapsto> ''-5'')"
  let ?cfg = "\<lparr>rpc_pool_map = [1 \<mapsto> [default_rpc]], block_range = -5, block_delayed = 6, sync_interval = 10000\<rparr>"
  let ?g = "group_tasks [zero_task\<lparr>task_from_block := 100\<rparr>]"
  have b: "boot_config ?env = Some ?cfg"
    by (simp add: boot_config_def env_or_update parse_int_literals)
  have p: "js_parse_int (env_or ?env ''BLOCK_RANGE'' ''100'') = Some (-5)"
    by (simp add: env_or_update parse_int_literals)
  have f: "from_of ?g 1 = Some 100"
    by (simp add: group_tasks_def group_step_def no_groups_def zero_task_def get_list_def js_falsy_num_def Let_def)
  have s: "scan_chain ?cfg quiet_rpc empty_store ?g 1 = Inr (Scanned [] 96)"
    using f by (simp add: scan_chain_def quiet_rpc_def scan_window_def Let_def)
  show ?thesis using negative_range_rewinds [OF b p _ s f] s by simp
qed

end
