(* ===== verification/QueryBuilder.thy ===== *)
theory QueryBuilder
  imports Prelude
begin

text \<open>
  The parts of \<open>MySQLQueryBuilder\<close> (\<open>src/src/utils/mysqlQueryBuilder.ts\<close>) whose
  behaviour the pipeline depends on. \<open>insertBatch\<close> splits the rows into slices of
  \<open>batchSize = 1000\<close> and issues one \<open>INSERT\<close> statement per slice, awaiting each; a
  failing statement rejects the call after the earlier slices were committed. Which
  statements fail is an input (a predicate on the slice index); the store-specific
  insertion of one slice is a parameter.
\<close>

definition batch_size :: nat where
  "batch_size = 1000"

text \<open>\<open>for (let i = 0; i < data.length; i += batchSize) data.slice(i, i + batchSize)\<close>;
  a zero size (never used: the size is a constant) yields no slice.\<close>

function batch_slices :: "nat \<Rightarrow> 'a list \<Rightarrow> 'a list list" where
  "batch_slices n xs = (if xs = [] \<or> n = 0 then [] else take n xs # batch_slices n (drop n xs))"
  by pat_completeness auto
termination
  by (relation "measure (\<lambda>(n, xs). length xs)") auto

declare batch_slices.simps [simp del]

fun insert_slices :: "(nat \<Rightarrow> bool) \<Rightarrow> ('r list \<Rightarrow> 's \<Rightarrow> 's) \<Rightarrow> nat \<Rightarrow> 'r list list \<Rightarrow> 's \<Rightarrow> 's \<times> bool" where
  "insert_slices fails ins i [] s = (s, True)"
| "insert_slices fails ins i (b # bs) s =
     (if fails i then (s, False) else insert_slices fails ins (Suc i) bs (ins b s))"

definition insert_batch :: "(nat \<Rightarrow> bool) \<Rightarrow> ('r list \<Rightarrow> 's \<Rightarrow> 's) \<Rightarrow> 'r list \<Rightarrow> 's \<Rightarrow> 's \<times> bool" where
  "insert_batch fails ins rows s =
     (if rows = [] then (s, True) else insert_slices fails ins 0 (batch_slices batch_size rows) s)"

lemma concat_batch_slices: "0 < n \<Longrightarrow> concat (batch_slices n xs) = xs"
proof (induction n xs rule: batch_slices.induct)
  case (1 n xs)
  then show ?case by (subst batch_slices.simps) auto
qed

lemma batch_slices_bounded:
  "0 < n \<Longrightarrow> b \<in> set (batch_slices n xs) \<Longrightarrow> b \<noteq> [] \<and> length b \<le> n"
proof (induction n xs rule: batch_slices.induct)
  case (1 n xs)
  then show ?case by (subst (asm) batch_slices.simps) (auto split: if_splits)
qed

lemma insert_slices_no_fault:
  "(\<forall>i. \<not> fails i) \<Longrightarrow> insert_slices fails ins i bs s = (fold ins bs s, True)"
  by (induction bs arbitrary: i s) simp_all

lemma batch_slices_length:
  "0 < n \<Longrightarrow> length (batch_slices n xs) = (length xs + n - 1) div n"
proof (induction n xs rule: batch_slices.induct)
  case (1 n xs)
  show ?case
  proof (cases "xs = []")
    case True
    then show ?thesis using 1 by (subst batch_slices.simps) simp
  next
    case False
    then have "length (batch_slices n xs) = Suc ((length xs - n + n - 1) div n)"
      using 1 by (subst batch_slices.simps) simp
    also have "\<dots> = (length xs + n - 1) div n"
    proof (cases "n \<le> length xs")
      case True
      then have e: "length xs + n - 1 = (length xs - n + n - 1) + n" using 1(2) by linarith
      have "(length xs - n + n - 1 + n) div n = Suc ((length xs - n + n - 1) div n)"
        using 1(2) by (simp only: div_add_self2 [OF gr_implies_not0 [OF 1(2)]] Suc_eq_plus1)
      then show ?thesis by (simp only: e)
    next
      case False
      have pos: "0 < length xs" using \<open>xs \<noteq> []\<close> by simp
      have "(length xs + n - 1) div n = 1"
      proof (rule div_nat_eqI)
        show "n * 1 \<le> length xs + n - 1" using pos by linarith
        show "length xs + n - 1 < n * Suc 1" using False by simp
      qed
      then show ?thesis using False by simp
    qed
    finally show ?thesis .
  qed
qed

text \<open>Every \<open>INSERT\<close> of \<open>insertBatch\<close> is one step of the store; the call is a
  sequence of them.\<close>

lemma insert_slices_steps:
  assumes "\<And>b s. R s (ins b s)"
  shows "insert_slices fails ins i bs s = (s', ok) \<Longrightarrow> R\<^sup>*\<^sup>* s s'"
proof (induction bs arbitrary: i s)
  case (Cons b bs)
  then show ?case
    by (auto split: if_splits intro: converse_rtranclp_into_rtranclp [of R, OF assms])
qed simp

lemma insert_batch_steps:
  "(\<And>b s. R s (ins b s)) \<Longrightarrow> insert_batch fails ins rows s = (s', ok) \<Longrightarrow> R\<^sup>*\<^sup>* s s'"
  unfolding insert_batch_def by (auto split: if_splits intro: insert_slices_steps)

text \<open>C31: chunking the batch insert. For a positive chunk size, the slices
  \<open>data.slice(i, i + batchSize)\<close> of \<open>insertBatch\<close> concatenate back to the rows, none
  is empty or longer than the chunk size, and there are \<open>ceil(length / size)\<close> of them:
  2500 rows give three \<open>INSERT\<close> statements.\<close>

theorem batch_slices_roundtrip:
  "0 < n \<Longrightarrow> concat (batch_slices n xs) = xs \<and> (\<forall>b\<in>set (batch_slices n xs). b \<noteq> [] \<and> length b \<le> n) \<and>
   length (batch_slices n xs) = (length xs + n - 1) div n"
  using concat_batch_slices batch_slices_bounded batch_slices_length by blast

lemma batch_slices_roundtrip_witness:
  "concat (batch_slices batch_size (replicate 2500 (0::nat))) = replicate 2500 0 \<and>
   length (batch_slices batch_size (replicate 2500 (0::nat))) = 3"
proof -
  have "0 < batch_size" by (simp add: batch_size_def)
  note r = batch_slices_roundtrip [OF this, of "replicate 2500 (0::nat)"]
  have "(length (replicate 2500 (0::nat)) + batch_size - 1) div batch_size = 3"
    by (simp only: length_replicate batch_size_def)
  then show ?thesis using r by simp
qed

end
