(* ===== verification/Ingest.thy ===== *)
theory Ingest
  imports Scanner QueryBuilder
begin

text \<open>
  EventIngester and the whole scan cycle: the write phase of
  \<open>BlockchainService.syncEvents\<close> (\<open>src/src/services/blockchain.ts\<close>, lines 232 to
  247) and its composition with the read phase (lines 54 to 230). For each chain in
  \<open>chainIds\<close> order, the chain's tasks get \<open>from_block = toBlock + 1\<close> (one
  \<open>UPDATE ... WHERE chain_id\<close>), then its staged rows are batch-inserted. Nothing
  catches a failing write: it rejects the cycle, after the writes before it were
  committed. Which writes fail is an input (\<open>scan_faults\<close>); a failing
  \<open>SELECT\<close> of the tasks is caught and read as no task.
\<close>

datatype scan_fault = FSelectTasks | FUpdateTasks chain_id | FInsertChunk chain_id nat

type_synonym scan_faults = "scan_fault \<Rightarrow> bool"

definition no_scan_faults :: scan_faults where
  "no_scan_faults f = False"

text \<open>One \<open>INSERT\<close> of staged rows: the store numbers them from its auto-increment
  counter and gives them the column default \<open>version = 0\<close>.\<close>

fun stamp_ids :: "nat \<Rightarrow> event_data list \<Rightarrow> event_data list" where
  "stamp_ids n [] = []"
| "stamp_ids n (e # es) = e\<lparr>ev_id := n, ev_version := 0\<rparr> # stamp_ids (Suc n) es"

definition insert_events :: "event_data list \<Rightarrow> store \<Rightarrow> store" where
  "insert_events evs s =
     s\<lparr>event_rows := event_rows s @ stamp_ids (next_event_id s) evs,
       next_event_id := next_event_id s + length evs\<rparr>"

text \<open>\<open>queryBuilder.update('scan_tasks', {from_block: toBlock}, {chain_id: chainId})\<close>\<close>

definition update_from_block :: "chain_id \<Rightarrow> block_num \<Rightarrow> store \<Rightarrow> store" where
  "update_from_block c b s =
     s\<lparr>scan_tasks := update_where (\<lambda>t. task_chain_id t = c) (\<lambda>t. t\<lparr>task_from_block := b\<rparr>) (scan_tasks s)\<rparr>"

definition staged_of :: "(chain_id \<times> chain_outcome) list \<Rightarrow> chain_id \<Rightarrow> event_data list" where
  "staged_of outs c = (case map_of outs c of Some (Scanned evs _) \<Rightarrow> evs | _ \<Rightarrow> [])"

definition next_of :: "(chain_id \<times> chain_outcome) list \<Rightarrow> chain_id \<Rightarrow> block_num option" where
  "next_of outs c = (case map_of outs c of Some (Scanned _ nxt) \<Rightarrow> Some nxt | _ \<Rightarrow> None)"

text \<open>The \<open>for (const chainId of chainIds)\<close> write loop; the flag is \<open>False\<close> when a
  write rejected the cycle.\<close>

fun write_phase :: "scan_faults \<Rightarrow> chain_id list \<Rightarrow> (chain_id \<times> chain_outcome) list \<Rightarrow> store \<Rightarrow> store \<times> bool" where
  "write_phase flt [] outs s = (s, True)"
| "write_phase flt (c # cs) outs s =
     (let upd = (case next_of outs c of
                   Some nxt \<Rightarrow> if nxt \<noteq> 0 then (if flt (FUpdateTasks c) then None else Some (update_from_block c nxt s))
                               else Some s
                 | None \<Rightarrow> Some s)
      in case upd of
           None \<Rightarrow> (s, False)
         | Some s1 \<Rightarrow>
             (let (s2, ok) = insert_batch (\<lambda>i. flt (FInsertChunk c i)) insert_events (staged_of outs c) s1
              in if ok then write_phase flt cs outs s2 else (s2, False)))"

text \<open>The body of \<open>syncEvents\<close> between the guard and the \<open>finally\<close>.\<close>

definition sync_cycle :: "chain_config \<Rightarrow> rpc_env \<Rightarrow> scan_faults \<Rightarrow> store \<Rightarrow> store" where
  "sync_cycle cfg env flt st =
     (let tasks = (if flt FSelectTasks then [] else scan_tasks st) in
      if tasks = [] then st
      else
        (let g = group_tasks tasks in
         case scan_phase cfg env st g (chain_ids g) of
           Inl _ \<Rightarrow> st
         | Inr outs \<Rightarrow> fst (write_phase flt (chain_ids g) outs st)))"

subsection \<open>Fixtures\<close>

definition advance_task :: "(chain_id \<times> chain_outcome) list \<Rightarrow> chain_id list \<Rightarrow> scan_task \<Rightarrow> scan_task" where
  "advance_task outs cs t =
     (case next_of outs (task_chain_id t) of
        Some n \<Rightarrow> if n \<noteq> 0 \<and> task_chain_id t \<in> set cs then t\<lparr>task_from_block := n\<rparr> else t
      | None \<Rightarrow> t)"

definition demo_cfg :: chain_config where
  "demo_cfg = \<lparr>rpc_pool_map = [1 \<mapsto> [''rpc1''], 2 \<mapsto> [''rpc2'']], block_range = 100,
                block_delayed = 6, sync_interval = 0\<rparr>"

definition demo_env :: rpc_env where
  "demo_env = \<lparr>pick = (\<lambda>c. 0), head_of = (\<lambda>r. if r = ''rpc2'' then None else Some 210),
                logs_of = (\<lambda>r f. Some []), tx_from = (\<lambda>r h. Some None), block_ts = (\<lambda>r b. Some None),
                keccak = (\<lambda>s. s)\<rparr>"

definition scan_store :: store where
  "scan_store = \<lparr>scan_tasks = [zero_task\<lparr>task_from_block := 100\<rparr>,
                               zero_task\<lparr>task_address := ''0xd'', task_from_block := 500\<rparr>,
                               zero_task\<lparr>task_chain_id := 2, task_from_block := 100\<rparr>],
                 event_rows = [], users = [], next_event_id = 1\<rparr>"

definition demo_log :: eth_log where
  "demo_log = \<lparr>log_topics = [''Staked(address,uint256)''], log_removed = False, log_address = ''0xc'',
                log_data = ''0x05'', log_tx_hash = ''0xaa'', log_block_number = 150, log_index = 0,
                log_tx_index = 0\<rparr>"

definition ok_env :: rpc_env where
  "ok_env = demo_env\<lparr>head_of := (\<lambda>r. Some 210),
                      logs_of := (\<lambda>r f. if r = ''rpc1'' then Some [demo_log] else Some [])\<rparr>"

definition demo_staged :: event_data where
  "demo_staged = staged_event 1 (zero_task\<lparr>task_from_block := 100\<rparr>) demo_log None None"

definition lose_flt :: scan_faults where
  "lose_flt f \<longleftrightarrow> f = FInsertChunk 1 0"

subsection \<open>Lemmas\<close>

lemma stamp_ids_append: "stamp_ids n (xs @ ys) = stamp_ids n xs @ stamp_ids (n + length xs) ys"
  by (induction xs arbitrary: n) simp_all

lemma stamp_ids_keys [simp]: "map event_key (stamp_ids n es) = map event_key es"
  by (induction es arbitrary: n) (simp_all add: event_key_def)

lemma stamp_ids_ids [simp]: "map ev_id (stamp_ids n es) = [n..<n + length es]"
  by (induction es arbitrary: n) (simp_all add: upt_rec)

lemma stamp_ids_length [simp]: "length (stamp_ids n es) = length es"
  by (induction es arbitrary: n) simp_all

lemma insert_events_append:
  "insert_events (xs @ ys) s = insert_events ys (insert_events xs s)"
  by (simp add: insert_events_def stamp_ids_append add.assoc)

lemma fold_insert_events: "fold insert_events bs s = insert_events (concat bs) s"
proof (induction bs arbitrary: s)
  case Nil
  then show ?case by (simp add: insert_events_def)
next
  case (Cons b bs)
  then show ?case by (simp add: insert_events_append)
qed

lemma insert_batch_no_fault:
  "(\<forall>i. \<not> fails i) \<Longrightarrow> insert_batch fails insert_events evs s = (insert_events evs s, True)"
  by (simp add: insert_batch_def insert_slices_no_fault fold_insert_events concat_batch_slices
      batch_size_def insert_events_def)

lemma insert_events_frame [simp]:
  "users (insert_events evs s) = users s" "scan_tasks (insert_events evs s) = scan_tasks s"
  by (simp_all add: insert_events_def)

lemma update_from_block_frame [simp]:
  "users (update_from_block c b s) = users s" "event_rows (update_from_block c b s) = event_rows s"
  "next_event_id (update_from_block c b s) = next_event_id s"
  by (simp_all add: update_from_block_def)

lemma insert_slices_appends:
  "insert_slices fails insert_events i bs s = (s', ok) \<Longrightarrow>
   \<exists>new. event_rows s' = event_rows s @ new \<and> event_key ` set new \<subseteq> event_key ` set (concat bs) \<and>
         users s' = users s"
proof (induction bs arbitrary: i s)
  case Nil
  then show ?case by simp
next
  case (Cons b bs)
  show ?case
  proof (cases "fails i")
    case True
    with Cons.prems have "s' = s" by simp
    then show ?thesis by (intro exI [of _ "[]"]) simp
  next
    case False
    with Cons.prems have "insert_slices fails insert_events (Suc i) bs (insert_events b s) = (s', ok)" by simp
    from Cons.IH [OF this] obtain new where
      n: "event_rows s' = event_rows (insert_events b s) @ new"
      and k: "event_key ` set new \<subseteq> event_key ` set (concat bs)" and u: "users s' = users s"
      by (auto simp only: insert_events_frame)
    have "event_rows s' = event_rows s @ (stamp_ids (next_event_id s) b @ new)"
      using n by (simp add: insert_events_def)
    moreover have "event_key ` set (stamp_ids (next_event_id s) b @ new) \<subseteq> event_key ` set (concat (b # bs))"
    proof -
      have "set (map event_key (stamp_ids (next_event_id s) b)) = set (map event_key b)"
        by (simp only: stamp_ids_keys)
      then have st: "event_key ` set (stamp_ids (next_event_id s) b) = event_key ` set b"
        by (simp only: set_map)
      have "event_key ` set (stamp_ids (next_event_id s) b @ new) = event_key ` set b \<union> event_key ` set new"
        using st by (simp only: set_append image_Un)
      also have "\<dots> \<subseteq> event_key ` set b \<union> event_key ` set (concat bs)"
        using k by (rule Un_mono [OF subset_refl])
      also have "\<dots> = event_key ` set (concat (b # bs))"
        by (simp only: concat.simps set_append image_Un)
      finally show ?thesis .
    qed
    ultimately show ?thesis using u by blast
  qed
qed

lemma insert_batch_appends:
  "insert_batch fails insert_events evs s = (s', ok) \<Longrightarrow>
   \<exists>new. event_rows s' = event_rows s @ new \<and> event_key ` set new \<subseteq> event_key ` set evs \<and>
         users s' = users s"
  unfolding insert_batch_def
  by (auto split: if_splits dest!: insert_slices_appends simp: concat_batch_slices batch_size_def)

lemma write_phase_appends:
  "write_phase flt cs outs s = (s', ok) \<Longrightarrow>
   \<exists>new. event_rows s' = event_rows s @ new \<and>
         event_key ` set new \<subseteq> (\<Union>c\<in>set cs. event_key ` set (staged_of outs c)) \<and> users s' = users s"
proof (induction cs arbitrary: s)
  case Nil
  then show ?case by simp
next
  case (Cons c cs)
  define upd where "upd = (case next_of outs c of
      Some nxt \<Rightarrow> if nxt \<noteq> 0 then (if flt (FUpdateTasks c) then None else Some (update_from_block c nxt s))
                  else Some s
    | None \<Rightarrow> Some s)"
  let ?K = "\<Union>c\<in>set (c # cs). event_key ` set (staged_of outs c)"
  show ?case
  proof (cases upd)
    case None
    with Cons.prems have "s' = s" by (simp add: upd_def [symmetric])
    then show ?thesis by (intro exI [of _ "[]"]) simp
  next
    case (Some s1)
    have s1: "event_rows s1 = event_rows s" "users s1 = users s"
      using Some by (auto simp: upd_def split: option.splits if_splits)
    obtain s2 ok2 where ib: "insert_batch (\<lambda>i. flt (FInsertChunk c i)) insert_events (staged_of outs c) s1 = (s2, ok2)"
      by (meson surj_pair)
    from insert_batch_appends [OF ib] obtain new1 where
      n1: "event_rows s2 = event_rows s1 @ new1" and k1: "event_key ` set new1 \<subseteq> event_key ` set (staged_of outs c)"
      and u1: "users s2 = users s1" by blast
    have k1': "event_key ` set new1 \<subseteq> ?K" using k1 by (rule subset_trans) auto
    show ?thesis
    proof (cases ok2)
      case False
      with Cons.prems Some ib have "s' = s2" by (simp add: upd_def [symmetric])
      then show ?thesis using n1 k1' u1 s1 by (intro exI [of _ new1]) simp
    next
      case True
      with Cons.prems Some ib have "write_phase flt cs outs s2 = (s', ok)" by (simp add: upd_def [symmetric])
      from Cons.IH [OF this] obtain new2 where
        n2: "event_rows s' = event_rows s2 @ new2"
        and k2: "event_key ` set new2 \<subseteq> (\<Union>c\<in>set cs. event_key ` set (staged_of outs c))"
        and u2: "users s' = users s2" by blast
      have k2': "event_key ` set new2 \<subseteq> ?K" using k2 by (rule subset_trans) auto
      have "event_key ` set (new1 @ new2) \<subseteq> ?K"
        using k1' k2' by (simp only: set_append image_Un Un_least)
      then show ?thesis using n1 n2 u1 u2 s1 by (intro exI [of _ "new1 @ new2"]) simp
    qed
  qed
qed

lemma staged_of_scanned:
  assumes "scan_phase cfg env st g cs = Inr outs" and "e \<in> set (staged_of outs c)"
  shows "event_key e \<notin> event_key ` set (event_rows st)"
proof -
  obtain evs nxt where m: "map_of outs c = Some (Scanned evs nxt)" and e: "e \<in> set evs"
  proof (cases "map_of outs c")
    case None
    then show ?thesis using assms(2) by (simp add: staged_of_def)
  next
    case (Some r)
    then show ?thesis using assms(2) that by (cases r) (simp_all add: staged_of_def)
  qed
  have "scan_chain cfg env st g c = Inr (Scanned evs nxt)"
    using scan_phase_member [OF assms(1) map_of_SomeD [OF m]] .
  then show ?thesis using scan_chain_scanned e by blast
qed

text \<open>C3: persistence without duplicates against the store. Whatever the RPC endpoints
  answer and whichever writes fail, one scan cycle only appends rows to \<open>event_data\<close>,
  none of them with the \<open>(chain_id, event_type, tx_hash)\<close> key of a row stored before the
  cycle, and it leaves the ledger untouched.\<close>

theorem sync_cycle_appends_new_keys:
  "\<exists>new. event_rows (sync_cycle cfg env flt st) = event_rows st @ new \<and>
         event_key ` set new \<inter> event_key ` set (event_rows st) = {} \<and>
         users (sync_cycle cfg env flt st) = users st"
proof -
  let ?tasks = "if flt FSelectTasks then [] else scan_tasks st"
  let ?g = "group_tasks ?tasks"
  show ?thesis
  proof (cases "?tasks = [] \<or> isl (scan_phase cfg env st ?g (chain_ids ?g))")
    case True
    then have "sync_cycle cfg env flt st = st"
      by (auto simp: sync_cycle_def Let_def split: sum.splits)
    then show ?thesis by (intro exI [of _ "[]"]) simp
  next
    case False
    then obtain outs where ph: "scan_phase cfg env st ?g (chain_ids ?g) = Inr outs"
      by (cases "scan_phase cfg env st ?g (chain_ids ?g)") auto
    obtain s' ok where wp: "write_phase flt (chain_ids ?g) outs st = (s', ok)" by (meson surj_pair)
    have eq: "sync_cycle cfg env flt st = s'"
      using False ph wp by (simp add: sync_cycle_def Let_def)
    from write_phase_appends [OF wp] obtain new where
      n: "event_rows s' = event_rows st @ new"
      and k: "event_key ` set new \<subseteq> (\<Union>c\<in>set (chain_ids ?g). event_key ` set (staged_of outs c))"
      and u: "users s' = users st" by blast
    have "\<forall>x\<in>event_key ` set new. x \<notin> event_key ` set (event_rows st)"
    proof
      fix x assume "x \<in> event_key ` set new"
      then obtain c e where "e \<in> set (staged_of outs c)" "x = event_key e"
        using k by blast
      then show "x \<notin> event_key ` set (event_rows st)" using staged_of_scanned [OF ph] by simp
    qed
    then have "event_key ` set new \<inter> event_key ` set (event_rows st) = {}" by blast
    then show ?thesis using eq n u by (intro exI [of _ new]) simp
  qed
qed

lemma map_advance_update:
  "next_of outs c = Some n \<Longrightarrow> n \<noteq> 0 \<Longrightarrow>
   map (advance_task outs cs) (update_where (\<lambda>t. task_chain_id t = c) (\<lambda>t. t\<lparr>task_from_block := n\<rparr>) ts) =
   map (advance_task outs (c # cs)) ts"
  by (simp add: update_where_def advance_task_def split: option.split)

lemma advance_task_chain [simp]: "task_chain_id (advance_task outs cs t) = task_chain_id t"
  by (simp add: advance_task_def split: option.split)

lemma advance_task_from:
  "next_of outs (task_chain_id t) = Some n \<Longrightarrow> n \<noteq> 0 \<Longrightarrow> task_chain_id t \<in> set cs \<Longrightarrow>
   task_from_block (advance_task outs cs t) = n"
  by (simp add: advance_task_def)

lemma advance_task_Nil [simp]: "advance_task outs [] t = t"
  by (simp add: advance_task_def split: option.split)

lemma map_advance_skip:
  "next_of outs c = None \<or> next_of outs c = Some 0 \<Longrightarrow>
   map (advance_task outs cs) ts = map (advance_task outs (c # cs)) ts"
  by (auto simp: advance_task_def split: option.splits)

lemma write_phase_no_faults:
  "write_phase no_scan_faults cs outs s =
     (s\<lparr>scan_tasks := map (advance_task outs cs) (scan_tasks s),
        event_rows := event_rows s @ stamp_ids (next_event_id s) (concat (map (staged_of outs) cs)),
        next_event_id := next_event_id s + length (concat (map (staged_of outs) cs))\<rparr>, True)"
proof (induction cs arbitrary: s)
  case Nil
  then show ?case by simp
next
  case (Cons c cs)
  define s1 where "s1 = (case next_of outs c of Some n \<Rightarrow> if n \<noteq> 0 then update_from_block c n s else s | None \<Rightarrow> s)"
  have ts1: "map (advance_task outs cs) (scan_tasks s1) = map (advance_task outs (c # cs)) (scan_tasks s)"
    using map_advance_update [of outs c _ cs] map_advance_skip [of outs c cs]
    by (auto simp: s1_def update_from_block_def split: option.splits)
  have f1: "event_rows s1 = event_rows s" "next_event_id s1 = next_event_id s" "users s1 = users s"
    by (simp_all add: s1_def split: option.splits)
  have wp: "write_phase no_scan_faults (c # cs) outs s = write_phase no_scan_faults cs outs (insert_events (staged_of outs c) s1)"
    by (simp add: s1_def no_scan_faults_def insert_batch_no_fault split: option.splits)
  show ?case
    unfolding wp Cons.IH
    using ts1 f1 by (simp add: insert_events_def stamp_ids_append add.assoc s1_def split: option.splits)
qed

lemma scan_phase_keys:
  "scan_phase cfg env st g cs = Inr outs \<Longrightarrow> map fst outs = cs"
  by (induction cs arbitrary: outs) (auto split: sum.splits)

lemma scan_phase_Inl:
  "c \<in> set cs \<Longrightarrow> scan_chain cfg env st g c = Inl e \<Longrightarrow> \<exists>e'. scan_phase cfg env st g cs = Inl e'"
  by (induction cs) (auto split: sum.splits)

lemma scan_chain_head_failure:
  "rpc_pool_map cfg c = Some pool \<Longrightarrow> pool \<noteq> [] \<Longrightarrow> head_of env (pool ! (pick env c mod length pool)) = None \<Longrightarrow>
   scan_chain cfg env st g c = Inl RpcFailure"
  by (simp add: scan_chain_def Let_def)

text \<open>C9: one unreachable head aborts every chain. \<open>getLatestBlock\<close> is awaited outside the
  per-chain \<open>try\<close>, so when the endpoint picked for any configured chain fails to return
  its head, \<open>Promise.all\<close> rejects and the cycle writes nothing for any chain: no
  watermark advances and no row is inserted, also for the chains whose scan succeeded.
  The specification says a per-chain failure leaves the other chains unaffected.\<close>

theorem sync_cycle_head_failure_aborts:
  assumes "\<not> flt FSelectTasks" and "c \<in> set (chain_ids (group_tasks (scan_tasks st)))"
    and "rpc_pool_map cfg c = Some pool" and "pool \<noteq> []"
    and "head_of env (pool ! (pick env c mod length pool)) = None"
  shows "sync_cycle cfg env flt st = st"
proof -
  obtain e' where "scan_phase cfg env st (group_tasks (scan_tasks st)) (chain_ids (group_tasks (scan_tasks st))) = Inl e'"
    using scan_phase_Inl [OF assms(2) scan_chain_head_failure [OF assms(3-5)]] by blast
  then show ?thesis using assms(1) by (simp add: sync_cycle_def Let_def)
qed

lemma scan_store_groups:
  "chain_ids (group_tasks (scan_tasks scan_store)) = [1, 2]"
  "from_of (group_tasks (scan_tasks scan_store)) 1 = Some 100"
  "contracts_of (group_tasks (scan_tasks scan_store)) 1 = Some [''0xc'', ''0xd'']"
  "tasks_of (group_tasks (scan_tasks scan_store)) 1 = Some (take 2 (scan_tasks scan_store))"
  by (simp_all add: scan_store_def group_tasks_def group_fields no_groups_def zero_task_def get_list_def js_falsy_num_def)

text \<open>C7: the scan cycle when every write succeeds. Every chain's staged rows are inserted once,
  in \<open>chainIds\<close> order, numbered from the store's counter with version 0, and every
  task of a chain that was scanned gets the chain's next watermark \<open>toBlock + 1\<close>.\<close>

theorem sync_cycle_no_faults:
  assumes "scan_tasks st \<noteq> []"
    and "scan_phase cfg env st (group_tasks (scan_tasks st)) (chain_ids (group_tasks (scan_tasks st))) = Inr outs"
  shows "sync_cycle cfg env no_scan_faults st =
     (let cs = chain_ids (group_tasks (scan_tasks st)); new = concat (map (staged_of outs) cs) in
      st\<lparr>scan_tasks := map (advance_task outs cs) (scan_tasks st),
         event_rows := event_rows st @ stamp_ids (next_event_id st) new,
         next_event_id := next_event_id st + length new\<rparr>)"
proof -
  have "\<not> no_scan_faults FSelectTasks" by (simp add: no_scan_faults_def)
  then show ?thesis using assms by (simp add: sync_cycle_def write_phase_no_faults Let_def)
qed

text \<open>C17: the chain watermark advances. When the task watermarks and the block span are not
  negative and every write succeeds, a chain that was scanned ends the cycle with all its
  tasks at the next watermark, which lies strictly above the watermark the scan started
  from.\<close>

theorem sync_cycle_advances_watermark:
  assumes "scan_tasks st \<noteq> []" and "\<forall>t\<in>set (scan_tasks st). 0 \<le> task_from_block t"
    and "0 \<le> block_range cfg"
    and "scan_phase cfg env st (group_tasks (scan_tasks st)) (chain_ids (group_tasks (scan_tasks st))) = Inr outs"
    and "map_of outs c = Some (Scanned evs nxt)"
  shows "(case from_of (group_tasks (scan_tasks st)) c of None \<Rightarrow> 0 | Some v \<Rightarrow> v) < nxt \<and>
         (\<forall>t\<in>set (scan_tasks (sync_cycle cfg env no_scan_faults st)). task_chain_id t = c \<longrightarrow> task_from_block t = nxt)"
proof -
  let ?g = "group_tasks (scan_tasks st)"
  have sc: "scan_chain cfg env st ?g c = Inr (Scanned evs nxt)"
    using scan_phase_member [OF assms(4) map_of_SomeD [OF assms(5)]] .
  have lt: "(case from_of ?g c of None \<Rightarrow> 0 | Some v \<Rightarrow> v) < nxt"
    using scan_chain_scanned [OF sc] assms(3) by blast
  have "0 \<le> (case from_of ?g c of None \<Rightarrow> 0 | Some v \<Rightarrow> v)"
    using from_of_in [of "scan_tasks st" c] assms(2) by (auto split: option.split)
  then have nz: "nxt \<noteq> 0" using lt by linarith
  have c: "c \<in> set (chain_ids ?g)"
  proof -
    have "c \<in> set (map fst outs)" using map_of_SomeD [OF assms(5)] by force
    then show ?thesis by (simp only: scan_phase_keys [OF assms(4)])
  qed
  have nx: "next_of outs c = Some nxt" using assms(5) by (simp add: next_of_def)
  have "\<not> no_scan_faults FSelectTasks" by (simp add: no_scan_faults_def)
  then have "sync_cycle cfg env no_scan_faults st = fst (write_phase no_scan_faults (chain_ids ?g) outs st)"
    using assms(1,4) by (simp add: sync_cycle_def)
  then have "scan_tasks (sync_cycle cfg env no_scan_faults st) = map (advance_task outs (chain_ids ?g)) (scan_tasks st)"
    by (simp add: write_phase_no_faults)
  then show ?thesis using lt nz nx c advance_task_from [of outs _ nxt "chain_ids ?g"] by auto
qed

text \<open>C8: the watermark is advanced before the insert. For a chain with staged rows, the
  \<open>UPDATE scan_tasks\<close> runs before \<open>insertBatch\<close>; when the first \<open>INSERT\<close> fails,
  the cycle stops with the watermark moved past the window and none of its rows stored, so
  the next cycle scans from above them and the events are lost. The specification
  advances the watermark only after a successful batch write.\<close>

theorem write_phase_insert_fault_loses:
  assumes "next_of outs c = Some nxt" and "nxt \<noteq> 0" and "\<not> flt (FUpdateTasks c)"
    and "flt (FInsertChunk c 0)" and "staged_of outs c \<noteq> []"
  shows "write_phase flt (c # cs) outs s = (update_from_block c nxt s, False) \<and>
         event_rows (update_from_block c nxt s) = event_rows s"
proof -
  have "batch_slices batch_size (staged_of outs c) \<noteq> []"
    using assms(5) by (subst batch_slices.simps) (simp add: batch_size_def)
  then obtain b bs where "batch_slices batch_size (staged_of outs c) = b # bs" by (cases "batch_slices batch_size (staged_of outs c)") auto
  then show ?thesis using assms by (simp add: insert_batch_def)
qed

lemma scan_store_scan_ok:
  "scan_phase demo_cfg ok_env scan_store (group_tasks (scan_tasks scan_store))
     (chain_ids (group_tasks (scan_tasks scan_store))) =
   Inr [(1, Scanned [demo_staged] 201), (2, Scanned [] 201)]"
  by (simp add: scan_chain_def scan_window_def scan_store_def group_tasks_def group_fields no_groups_def
      zero_task_def get_list_def js_falsy_num_def demo_cfg_def ok_env_def demo_env_def demo_log_def
      event_count_def demo_staged_def Let_def)

lemma sync_cycle_head_failure_aborts_witness:
  "sync_cycle demo_cfg demo_env no_scan_faults scan_store = scan_store"
  by (rule sync_cycle_head_failure_aborts [where c = 2 and pool = "[''rpc2'']"])
     (simp_all add: no_scan_faults_def scan_store_groups demo_cfg_def demo_env_def)

lemma sync_cycle_no_faults_witness:
  "map task_from_block (scan_tasks (sync_cycle demo_cfg ok_env no_scan_faults scan_store)) = [201, 201, 201] \<and>
   map ev_id (event_rows (sync_cycle demo_cfg ok_env no_scan_faults scan_store)) = [1]"
proof -
  have "scan_tasks scan_store \<noteq> []" by (simp add: scan_store_def)
  note eq = sync_cycle_no_faults [OF this scan_store_scan_ok]
  show ?thesis
    unfolding eq scan_store_groups(1) Let_def
    by (simp add: scan_store_def advance_task_def next_of_def staged_of_def zero_task_def)
qed

lemma scan_store_cycle_tasks:
  "scan_tasks (sync_cycle demo_cfg ok_env no_scan_faults scan_store) =
   map (advance_task [(1, Scanned [demo_staged] 201), (2, Scanned [] 201)] [1, 2]) (scan_tasks scan_store)"
proof -
  have "\<not> no_scan_faults FSelectTasks" "scan_tasks scan_store \<noteq> []"
    by (simp_all add: no_scan_faults_def scan_store_def)
  then have "sync_cycle demo_cfg ok_env no_scan_faults scan_store =
      fst (write_phase no_scan_faults [1, 2] [(1, Scanned [demo_staged] 201), (2, Scanned [] 201)] scan_store)"
    using scan_store_scan_ok scan_store_groups(1) by (simp add: sync_cycle_def Let_def)
  then show ?thesis by (simp only: write_phase_no_faults fst_conv) simp
qed

lemma sync_cycle_advances_watermark_witness:
  "task_from_block (hd (scan_tasks (sync_cycle demo_cfg ok_env no_scan_faults scan_store))) = 201"
proof -
  have "(case from_of (group_tasks (scan_tasks scan_store)) 1 of None \<Rightarrow> 0 | Some v \<Rightarrow> v) < (201::int) \<and>
   (\<forall>t\<in>set (scan_tasks (sync_cycle demo_cfg ok_env no_scan_faults scan_store)). task_chain_id t = 1 \<longrightarrow> task_from_block t = 201)"
    by (rule sync_cycle_advances_watermark [OF _ _ _ scan_store_scan_ok, where evs = "[demo_staged]"])
       (simp_all add: scan_store_def zero_task_def demo_cfg_def)
  moreover have "hd (scan_tasks (sync_cycle demo_cfg ok_env no_scan_faults scan_store))
      \<in> set (scan_tasks (sync_cycle demo_cfg ok_env no_scan_faults scan_store))"
    "task_chain_id (hd (scan_tasks (sync_cycle demo_cfg ok_env no_scan_faults scan_store))) = 1"
    unfolding scan_store_cycle_tasks by (simp_all add: scan_store_def zero_task_def)
  ultimately show ?thesis by blast
qed

lemma write_phase_insert_fault_loses_witness:
  "write_phase lose_flt [1] [(1, Scanned [demo_staged] 201)] scan_store = (update_from_block 1 201 scan_store, False) \<and>
   event_rows (update_from_block 1 201 scan_store) = [] \<and>
   map task_from_block (scan_tasks (update_from_block 1 201 scan_store)) = [201, 201, 100]"
  using write_phase_insert_fault_loses [of "[(1, Scanned [demo_staged] 201)]" 1 201 lose_flt "[]" scan_store]
  by (simp add: next_of_def staged_of_def lose_flt_def update_from_block_def update_where_def scan_store_def zero_task_def)

text \<open>A task's \<open>from_block\<close> can decrease. The write phase sets every task of a chain to
  the chain's next watermark, computed from the least \<open>from_block\<close>; a task of the same
  chain further ahead (here at block 500, beside one at 100, with a span of 100) is moved
  back to block 201.\<close>

theorem sync_cycle_task_watermark_decrease:
  "task_from_block (scan_tasks scan_store ! 1) = 500 \<and>
   task_from_block (scan_tasks (sync_cycle demo_cfg ok_env no_scan_faults scan_store) ! 1) = 201"
  unfolding scan_store_cycle_tasks by (simp add: scan_store_def advance_task_def next_of_def zero_task_def)

end
