(* ===== verification/Ledger.thy ===== *)
theory Ledger
  imports Tables
begin

text \<open>
  LedgerUpdater: \<open>ParseService.getUser\<close>, \<open>handleStaked\<close> and \<open>handleUnStaked\<close>
  of \<open>src/src/services/parse.ts\<close>, over the \<open>user\<close> table. Each handler reads the
  wallet's first row, converts its decimal strings with \<open>BigInt\<close> (a malformed
  string throws, here \<^const>\<open>BigIntSyntaxError\<close>), and either updates every row of
  that address or inserts a new row. Amounts are unbounded integers and are written
  back with \<open>toString()\<close>. The abstract ledger maps a wallet to its three totals;
  the refinement lemmas show each handler implements one step of it.
\<close>

definition get_user :: "address \<Rightarrow> user_row list \<Rightarrow> user_row option" where
  "get_user wallet us = find (\<lambda>u. u_address u = wallet) us"

definition handle_staked :: "address \<Rightarrow> int \<Rightarrow> user_row list \<Rightarrow> js_error + user_row list" where
  "handle_staked wallet amount us =
     (case get_user wallet us of
        Some u \<Rightarrow>
          (case string_to_bigint (total_staked u) of
             None \<Rightarrow> Inl BigIntSyntaxError
           | Some ts \<Rightarrow>
               (case string_to_bigint (current_staked u) of
                  None \<Rightarrow> Inl BigIntSyntaxError
                | Some cs \<Rightarrow>
                    Inr (update_where (\<lambda>r. u_address r = wallet)
                          (\<lambda>r. r\<lparr>total_staked := bigint_to_string (ts + amount),
                                 current_staked := bigint_to_string (cs + amount)\<rparr>) us)))
      | None \<Rightarrow>
          Inr (us @ [\<lparr>u_address = wallet, total_staked = bigint_to_string amount,
                      total_unstaked = ''0'', current_staked = bigint_to_string amount\<rparr>]))"

definition handle_unstaked :: "address \<Rightarrow> int \<Rightarrow> user_row list \<Rightarrow> js_error + user_row list" where
  "handle_unstaked wallet amount us =
     (case get_user wallet us of
        Some u \<Rightarrow>
          (case string_to_bigint (total_unstaked u) of
             None \<Rightarrow> Inl BigIntSyntaxError
           | Some tu \<Rightarrow>
               (case string_to_bigint (current_staked u) of
                  None \<Rightarrow> Inl BigIntSyntaxError
                | Some cs \<Rightarrow>
                    Inr (update_where (\<lambda>r. u_address r = wallet)
                          (\<lambda>r. r\<lparr>total_unstaked := bigint_to_string (tu + amount),
                                 current_staked := bigint_to_string (cs - amount)\<rparr>) us)))
      | None \<Rightarrow>
          Inr (us @ [\<lparr>u_address = wallet, total_staked = ''0'',
                      total_unstaked = bigint_to_string amount, current_staked = ''0''\<rparr>]))"

subsection \<open>Abstract ledger\<close>

type_synonym ledger_map = "address \<Rightarrow> (int \<times> int \<times> int) option"

text \<open>A row read as its three amounts; \<open>None\<close> if a field is not a BigInt literal.\<close>

definition row_view :: "user_row \<Rightarrow> (int \<times> int \<times> int) option" where
  "row_view u =
     (case (string_to_bigint (total_staked u), string_to_bigint (total_unstaked u),
            string_to_bigint (current_staked u)) of
        (Some ts, Some tu, Some cs) \<Rightarrow> Some (ts, tu, cs)
      | _ \<Rightarrow> None)"

definition ledger_view :: "user_row list \<Rightarrow> ledger_map" where
  "ledger_view us w = (case get_user w us of None \<Rightarrow> None | Some u \<Rightarrow> row_view u)"

text \<open>Well-formed table: one row per wallet, every amount readable.\<close>

definition ledger_wf :: "user_row list \<Rightarrow> bool" where
  "ledger_wf us \<longleftrightarrow> distinct (map u_address us) \<and> list_all (\<lambda>u. row_view u \<noteq> None) us"

definition stake_abs :: "ledger_map \<Rightarrow> address \<Rightarrow> int \<Rightarrow> ledger_map" where
  "stake_abs m w a =
     m(w \<mapsto> (case m w of None \<Rightarrow> (a, 0, a) | Some (ts, tu, cs) \<Rightarrow> (ts + a, tu, cs + a)))"

definition unstake_abs :: "ledger_map \<Rightarrow> address \<Rightarrow> int \<Rightarrow> ledger_map" where
  "unstake_abs m w a =
     m(w \<mapsto> (case m w of None \<Rightarrow> (0, a, 0) | Some (ts, tu, cs) \<Rightarrow> (ts, tu + a, cs - a)))"

text \<open>The nominal invariant of the specification, on the abstract ledger.\<close>

definition nominal :: "ledger_map \<Rightarrow> bool" where
  "nominal m \<longleftrightarrow> (\<forall>w. case m w of None \<Rightarrow> True | Some (ts, tu, cs) \<Rightarrow> cs = ts - tu)"

text \<open>A one-wallet table satisfying it.\<close>

definition demo_ledger :: "user_row list" where
  "demo_ledger = [\<lparr>u_address = ''0xa'', total_staked = ''5'', total_unstaked = ''2'', current_staked = ''3''\<rparr>]"

subsection \<open>Lookup, views and well-formedness\<close>

lemma get_user_Some: "get_user w us = Some u \<Longrightarrow> u \<in> set us \<and> u_address u = w"
  by (auto simp: get_user_def find_Some_iff)

lemma get_user_None: "get_user w us = None \<longleftrightarrow> w \<notin> set (map u_address us)"
  by (auto simp: get_user_def find_None_iff)

lemma row_view_Some:
  "row_view u = Some (ts, tu, cs) \<longleftrightarrow>
   string_to_bigint (total_staked u) = Some ts \<and> string_to_bigint (total_unstaked u) = Some tu \<and>
   string_to_bigint (current_staked u) = Some cs"
  by (auto simp: row_view_def split: option.splits)

lemma row_view_new [simp]:
  "row_view \<lparr>u_address = w, total_staked = bigint_to_string x, total_unstaked = bigint_to_string y,
             current_staked = bigint_to_string z\<rparr> = Some (x, y, z)"
  by (simp add: row_view_def string_to_bigint_bigint_to_string)

lemma bigint_zero_string: "''0'' = bigint_to_string 0"
  by (simp add: bigint_to_string_def show_radix.simps digit_chars_def)

lemma row_view_staked:
  "row_view u = Some (ts, tu, cs) \<Longrightarrow>
   row_view (u\<lparr>total_staked := bigint_to_string x, current_staked := bigint_to_string y\<rparr>) = Some (x, tu, y)"
  by (simp add: row_view_Some string_to_bigint_bigint_to_string)

lemma row_view_unstaked:
  "row_view u = Some (ts, tu, cs) \<Longrightarrow>
   row_view (u\<lparr>total_unstaked := bigint_to_string x, current_staked := bigint_to_string y\<rparr>) = Some (ts, x, y)"
  by (simp add: row_view_Some string_to_bigint_bigint_to_string)

lemma ledger_view_update:
  assumes "get_user w us = Some u" and "\<And>r. u_address (f r) = u_address r"
  shows "ledger_view (update_where (\<lambda>r. u_address r = w) f us) = (ledger_view us)(w := row_view (f u))"
proof
  fix w'
  show "ledger_view (update_where (\<lambda>r. u_address r = w) f us) w' = ((ledger_view us)(w := row_view (f u))) w'"
  proof (cases "w' = w")
    case True
    with assms show ?thesis
      by (simp add: ledger_view_def get_user_def find_update_where_same)
  next
    case False
    then have "find (\<lambda>r. u_address r = w') (update_where (\<lambda>r. u_address r = w) f us) =
               find (\<lambda>r. u_address r = w') us"
      using assms(2) by (intro find_update_where_other) auto
    with False show ?thesis by (simp add: ledger_view_def get_user_def)
  qed
qed

lemma ledger_view_insert:
  assumes "get_user w us = None" and "u_address r = w"
  shows "ledger_view (us @ [r]) = (ledger_view us)(w := row_view r)"
proof
  fix w'
  show "ledger_view (us @ [r]) w' = ((ledger_view us)(w := row_view r)) w'"
    using assms by (cases "get_user w' us") (auto simp: ledger_view_def get_user_def find_append)
qed

lemma ledger_wf_update:
  assumes "ledger_wf us" and "\<And>r. u_address (f r) = u_address r"
    and "\<And>r. r \<in> set us \<Longrightarrow> row_view r \<noteq> None \<Longrightarrow> row_view (f r) \<noteq> None"
  shows "ledger_wf (update_where P f us)"
proof -
  have "map u_address (update_where P f us) = map u_address us"
    using assms(2) by (rule update_where_map_keep)
  moreover have "list_all (\<lambda>u. row_view u \<noteq> None) (update_where P f us)"
    using assms(1,3) by (auto simp: ledger_wf_def update_where_def list_all_iff)
  ultimately show ?thesis using assms(1) by (simp add: ledger_wf_def)
qed

lemma ledger_wf_insert:
  "ledger_wf us \<Longrightarrow> get_user w us = None \<Longrightarrow> u_address r = w \<Longrightarrow> row_view r \<noteq> None \<Longrightarrow>
   ledger_wf (us @ [r])"
  by (simp add: ledger_wf_def get_user_None)

lemma ledger_wf_row: "ledger_wf us \<Longrightarrow> get_user w us = Some u \<Longrightarrow> \<exists>ts tu cs. row_view u = Some (ts, tu, cs)"
  by (auto simp: ledger_wf_def list_all_iff dest!: get_user_Some)

lemma handle_staked_refines:
  assumes "ledger_wf us"
  shows "\<exists>us'. handle_staked w a us = Inr us' \<and> ledger_wf us' \<and>
                ledger_view us' = stake_abs (ledger_view us) w a"
proof (cases "get_user w us")
  case None
  let ?r = "\<lparr>u_address = w, total_staked = bigint_to_string a, total_unstaked = bigint_to_string 0,
             current_staked = bigint_to_string a\<rparr>"
  have "handle_staked w a us = Inr (us @ [?r])"
    using None by (simp add: handle_staked_def bigint_zero_string)
  moreover have "ledger_wf (us @ [?r])"
    using assms None by (intro ledger_wf_insert) auto
  moreover have "ledger_view (us @ [?r]) = stake_abs (ledger_view us) w a"
    using None by (simp add: ledger_view_insert stake_abs_def ledger_view_def)
  ultimately show ?thesis by blast
next
  case (Some u)
  then obtain ts tu cs where v: "row_view u = Some (ts, tu, cs)"
    using ledger_wf_row [OF assms] by blast
  let ?f = "\<lambda>r. r\<lparr>total_staked := bigint_to_string (ts + a), current_staked := bigint_to_string (cs + a)\<rparr>"
  have "handle_staked w a us = Inr (update_where (\<lambda>r. u_address r = w) ?f us)"
    using Some v by (simp add: handle_staked_def row_view_Some)
  moreover have "ledger_wf (update_where (\<lambda>r. u_address r = w) ?f us)"
    using assms by (rule ledger_wf_update) (auto simp: row_view_def string_to_bigint_bigint_to_string split: option.splits)
  moreover have "ledger_view (update_where (\<lambda>r. u_address r = w) ?f us) = stake_abs (ledger_view us) w a"
    using Some v by (simp add: ledger_view_update row_view_staked stake_abs_def ledger_view_def)
  ultimately show ?thesis by blast
qed

lemma handle_unstaked_refines:
  assumes "ledger_wf us"
  shows "\<exists>us'. handle_unstaked w a us = Inr us' \<and> ledger_wf us' \<and>
                ledger_view us' = unstake_abs (ledger_view us) w a"
proof (cases "get_user w us")
  case None
  let ?r = "\<lparr>u_address = w, total_staked = bigint_to_string 0, total_unstaked = bigint_to_string a,
             current_staked = bigint_to_string 0\<rparr>"
  have "handle_unstaked w a us = Inr (us @ [?r])"
    using None by (simp add: handle_unstaked_def bigint_zero_string)
  moreover have "ledger_wf (us @ [?r])"
    using assms None by (intro ledger_wf_insert) auto
  moreover have "ledger_view (us @ [?r]) = unstake_abs (ledger_view us) w a"
    using None by (simp add: ledger_view_insert unstake_abs_def ledger_view_def)
  ultimately show ?thesis by blast
next
  case (Some u)
  then obtain ts tu cs where v: "row_view u = Some (ts, tu, cs)"
    using ledger_wf_row [OF assms] by blast
  let ?f = "\<lambda>r. r\<lparr>total_unstaked := bigint_to_string (tu + a), current_staked := bigint_to_string (cs - a)\<rparr>"
  have "handle_unstaked w a us = Inr (update_where (\<lambda>r. u_address r = w) ?f us)"
    using Some v by (simp add: handle_unstaked_def row_view_Some)
  moreover have "ledger_wf (update_where (\<lambda>r. u_address r = w) ?f us)"
    using assms by (rule ledger_wf_update) (auto simp: row_view_def string_to_bigint_bigint_to_string split: option.splits)
  moreover have "ledger_view (update_where (\<lambda>r. u_address r = w) ?f us) = unstake_abs (ledger_view us) w a"
    using Some v by (simp add: ledger_view_update row_view_unstaked unstake_abs_def ledger_view_def)
  ultimately show ?thesis by blast
qed

lemma stake_abs_nominal: "nominal m \<Longrightarrow> nominal (stake_abs m w a)"
  by (auto simp: nominal_def stake_abs_def split: option.splits prod.splits)

lemma unstake_abs_nominal: "nominal m \<Longrightarrow> m w \<noteq> None \<Longrightarrow> nominal (unstake_abs m w a)"
  by (auto simp: nominal_def unstake_abs_def split: option.splits prod.splits)

lemma ledger_view_known: "ledger_wf us \<Longrightarrow> get_user w us \<noteq> None \<Longrightarrow> ledger_view us w \<noteq> None"
  using ledger_wf_row by (fastforce simp: ledger_view_def)

text \<open>C14: the nominal ledger invariant. On a well-formed table where every wallet has
  \<open>current_staked = total_staked - total_unstaked\<close>, \<open>handleStaked\<close> keeps that equation
  for every wallet, and so does \<open>handleUnStaked\<close> on a wallet that already has a row, even
  when the amount drives \<open>current_staked\<close> negative.\<close>

theorem ledger_nominal_preserved:
  assumes "ledger_wf us" and "nominal (ledger_view us)"
  shows "(\<exists>us'. handle_staked w a us = Inr us' \<and> ledger_wf us' \<and> nominal (ledger_view us')) \<and>
         (get_user w us \<noteq> None \<longrightarrow> (\<exists>us'. handle_unstaked w a us = Inr us' \<and> ledger_wf us' \<and> nominal (ledger_view us')))"
  using handle_staked_refines [OF assms(1), of w a] handle_unstaked_refines [OF assms(1), of w a]
    stake_abs_nominal [OF assms(2)] unstake_abs_nominal [OF assms(2)] ledger_view_known [OF assms(1)]
  by metis

text \<open>C15: an UnStaked event for a wallet without a row breaks the nominal invariant.
  \<open>handleUnStaked\<close> inserts \<open>(total_staked, total_unstaked, current_staked) = (0, a, 0)\<close>, so
  \<open>current_staked \<noteq> total_staked - total_unstaked\<close> for any non-zero amount.\<close>

theorem unstake_new_wallet_breaks_nominal:
  assumes "ledger_wf us" and "get_user w us = None" and "a \<noteq> 0"
  shows "\<exists>us'. handle_unstaked w a us = Inr us' \<and> ledger_view us' w = Some (0, a, 0) \<and> \<not> nominal (ledger_view us')"
proof -
  have "ledger_view us w = None" using assms(2) by (simp add: ledger_view_def)
  then show ?thesis using handle_unstaked_refines [OF assms(1), of w a] assms(3)
    by (auto simp: unstake_abs_def nominal_def intro!: exI [of _ w])
qed

lemma demo_ledger_facts:
  "ledger_wf demo_ledger" "nominal (ledger_view demo_ledger)" "get_user ''0xa'' demo_ledger \<noteq> None"
  "get_user ''0xb'' demo_ledger = None"
  by (simp_all add: demo_ledger_def ledger_wf_def row_view_def string_to_bigint_def nominal_def ledger_view_def
      get_user_def js_trim_def radix_prefix_def decimal_literal_def digits_value_def radix_digit_def digit_chars_def
      js_ws_def)

lemma ledger_nominal_preserved_witness:
  "\<exists>us'. handle_unstaked ''0xa'' 1 demo_ledger = Inr us' \<and> ledger_wf us' \<and> nominal (ledger_view us')"
  using ledger_nominal_preserved [OF demo_ledger_facts(1,2), of "''0xa''" 1] demo_ledger_facts(3) by blast

lemma unstake_new_wallet_breaks_nominal_witness:
  "\<exists>us'. handle_unstaked ''0xb'' 4 demo_ledger = Inr us' \<and> ledger_view us' ''0xb'' = Some (0, 4, 0) \<and>
         \<not> nominal (ledger_view us')"
  using unstake_new_wallet_breaks_nominal [OF demo_ledger_facts(1,4), of 4] by simp

end
