(* ===== verification/Parser.thy ===== *)
theory Parser
  imports Ledger
begin

text \<open>
  EventParser and the parse cycle: \<open>parseEventData\<close>, \<open>ParseService.processEvent\<close>
  and the body of \<open>ParseService.syncParse\<close> in \<open>src/src/services/parse.ts\<close>.
  A record's payload must be 130 characters; the wallet is \<open>'0x'\<close> followed by
  characters 26 to 65, the amount is \<open>BigInt('0x' + data.slice(66))\<close>. After the
  ledger handler the record is marked processed (\<open>version = 1\<close>) by a second,
  independent write. Any exception inside \<open>processEvent\<close> is caught there, so the
  record is skipped and retried in a later cycle.

  Store writes can fail. Which ones fail is an input of the model, a fault set over
  the writes the parser issues, so that the consequences of the two non-atomic writes
  (ledger update, then mark) can be stated; the fault-free run is \<open>no_faults\<close>.
\<close>

datatype parse_fault = FSelect | FLedger nat | FMark nat

type_synonym parse_faults = "parse_fault \<Rightarrow> bool"

definition no_faults :: parse_faults where
  "no_faults f = False"

definition parse_event_data :: "hexstr \<Rightarrow> js_error + (address \<times> int)" where
  "parse_event_data data =
     (if length data \<noteq> 130 then Inl InvalidDataLength
      else (let wallet = ''0x'' @ js_slice data 26 66 in
            case string_to_bigint (''0x'' @ drop 66 data) of
              None \<Rightarrow> Inl BigIntSyntaxError
            | Some amount \<Rightarrow> Inr (wallet, amount)))"

text \<open>The \<open>if (event_type === 'Staked') ... else if ('UnStaked')\<close> dispatch.\<close>

definition dispatch_event :: "string \<Rightarrow> address \<Rightarrow> int \<Rightarrow> user_row list \<Rightarrow> js_error + user_row list" where
  "dispatch_event et wallet amount us =
     (if et = ''Staked'' then handle_staked wallet amount us
      else if et = ''UnStaked'' then handle_unstaked wallet amount us
      else Inr us)"

definition writes_ledger :: "string \<Rightarrow> bool" where
  "writes_ledger et \<longleftrightarrow> et = ''Staked'' \<or> et = ''UnStaked''"

text \<open>\<open>queryBuilder.update('event_data', {version: 1}, {id: event.id})\<close>.\<close>

definition mark_processed :: "nat \<Rightarrow> event_data list \<Rightarrow> event_data list" where
  "mark_processed i rows = update_where (\<lambda>r. ev_id r = i) (\<lambda>r. r\<lparr>ev_version := 1\<rparr>) rows"

definition process_event :: "parse_faults \<Rightarrow> event_data \<Rightarrow> store \<Rightarrow> store" where
  "process_event flt e s =
     (case parse_event_data (ev_data e) of
        Inl _ \<Rightarrow> s
      | Inr (wallet, amount) \<Rightarrow>
          (case dispatch_event (ev_event_type e) wallet amount (users s) of
             Inl _ \<Rightarrow> s
           | Inr us \<Rightarrow>
               if writes_ledger (ev_event_type e) \<and> flt (FLedger (ev_id e)) then s
               else if flt (FMark (ev_id e)) then s\<lparr>users := us\<rparr>
               else s\<lparr>users := us, event_rows := mark_processed (ev_id e) (event_rows s)\<rparr>))"

definition parse_page_size :: nat where
  "parse_page_size = 10"

text \<open>\<open>SELECT * FROM event_data WHERE version = ? LIMIT 10\<close>, rows in storage order.\<close>

definition unprocessed_page :: "store \<Rightarrow> event_data list" where
  "unprocessed_page s = take parse_page_size (filter unprocessed (event_rows s))"

definition sync_parse_body :: "parse_faults \<Rightarrow> store \<Rightarrow> store" where
  "sync_parse_body flt s =
     (if flt FSelect then s else fold (process_event flt) (unprocessed_page s) s)"

text \<open>The ABI encoding of \<open>event Staked(address wallet, uint256 amount)\<close> data as
  \<open>ethers.hexlify\<close> prints it: two 32-byte words, the address right-aligned in the
  first.\<close>

definition abi_payload :: "string \<Rightarrow> nat \<Rightarrow> hexstr" where
  "abi_payload w n = ''0x'' @ replicate 24 CHR ''0'' @ w @ hex_word n"

definition decodable :: "event_data \<Rightarrow> bool" where
  "decodable e \<longleftrightarrow> \<not> isl (parse_event_data (ev_data e))"

text \<open>The abstract ledger step of one record: what \<open>processEvent\<close> books.\<close>

definition event_abs :: "event_data \<Rightarrow> ledger_map \<Rightarrow> ledger_map" where
  "event_abs e m =
     (case parse_event_data (ev_data e) of
        Inl _ \<Rightarrow> m
      | Inr (w, a) \<Rightarrow>
          if ev_event_type e = ''Staked'' then stake_abs m w a
          else if ev_event_type e = ''UnStaked'' then unstake_abs m w a
          else m)"

text \<open>Stores on which a fault-free cycle books every record of its page: event ids are
  distinct, the ledger is well formed, every unprocessed record decodes.\<close>

definition parse_ready :: "store \<Rightarrow> bool" where
  "parse_ready s \<longleftrightarrow> distinct (map ev_id (event_rows s)) \<and> ledger_wf (users s) \<and>
     list_all (\<lambda>e. unprocessed e \<longrightarrow> decodable e) (event_rows s)"

text \<open>Only the mark write of record \<open>i\<close> fails.\<close>

definition mark_fault :: "nat \<Rightarrow> parse_faults" where
  "mark_fault i f \<longleftrightarrow> f = FMark i"

subsection \<open>Fixtures for the witnesses\<close>

definition demo_event :: event_data where
  "demo_event = \<lparr>ev_id = 1, ev_chain_id = 1, ev_sender = ''0x0'', ev_event_type = ''Staked'',
     ev_address = ''0xc'', ev_topic0 = [], ev_topic1 = [], ev_topic2 = [], ev_topic3 = [],
     ev_data = abi_payload (replicate 40 CHR ''a'') 5, ev_log_index = 0, ev_tx_hash = ''0x1'',
     ev_block_number = 100, ev_timestamp = 0, ev_tx_index = 0, ev_version = 0\<rparr>"

definition demo_store :: store where
  "demo_store = \<lparr>scan_tasks = [], event_rows = [demo_event], users = [], next_event_id = 2\<rparr>"

definition truncated_event :: "nat \<Rightarrow> event_data" where
  "truncated_event i = demo_event\<lparr>ev_id := i, ev_data := ''0x''\<rparr>"

text \<open>Ten records with a truncated payload stored before a good one.\<close>

definition poisoned_store :: store where
  "poisoned_store = demo_store\<lparr>event_rows := map truncated_event [2..<12] @ [demo_event]\<rparr>"

definition mixed_store :: store where
  "mixed_store = demo_store\<lparr>event_rows := [truncated_event 2, demo_event]\<rparr>"

text \<open>The wallet of \<open>demo_event\<close> already has a row whose \<open>current_staked\<close> is not a number.\<close>

definition corrupt_ledger_store :: store where
  "corrupt_ledger_store = demo_store\<lparr>users := [\<lparr>u_address = ''0x'' @ replicate 40 CHR ''a'',
     total_staked = ''1'', total_unstaked = ''0'', current_staked = ''abc''\<rparr>]\<rparr>"

subsection \<open>Decoding\<close>

text \<open>C16 (roundtrip). Decoding the ABI encoding of a 40-hex-digit wallet and an amount
  below \<open>2^256\<close> gives back \<open>'0x'\<close> followed by the wallet, and the amount.\<close>

theorem parse_event_data_abi_payload:
  assumes "length w = 40" and "n < 2 ^ 256"
  shows "parse_event_data (abi_payload w n) = Inr (''0x'' @ w, int n)"
proof -
  have n: "n < 16 ^ 64" using assms(2) by simp
  have len: "length (abi_payload w n) = 130"
    using assms(1) hex_word_length [OF n] by (simp add: abi_payload_def)
  have wallet: "js_slice (abi_payload w n) 26 66 = w"
    using assms(1) by (simp add: abi_payload_def js_slice_def)
  have amount: "drop 66 (abi_payload w n) = hex_word n"
    using assms(1) by (simp add: abi_payload_def)
  show ?thesis
    using len wallet amount string_to_bigint_hex_word [of n] by (simp add: parse_event_data_def)
qed

lemma parse_event_data_abi_payload_witness:
  "parse_event_data (abi_payload (replicate 40 CHR ''a'') 1) = Inr (''0x'' @ replicate 40 CHR ''a'', 1)"
  using parse_event_data_abi_payload [of "replicate 40 CHR ''a''" 1] by simp

text \<open>The decode example of the specification (\<open>0x\<close>, 24 zero
  digits, 40 \<open>a\<close> digits, 62 zero digits, \<open>1\<close>) has 129 characters, not 130, and
  \<open>parseEventData\<close> rejects it; with 63 zero digits it decodes to the stated wallet and 1.\<close>

theorem spec_decode_example:
  "parse_event_data (''0x'' @ replicate 24 CHR ''0'' @ replicate 40 CHR ''a'' @ replicate 62 CHR ''0'' @ ''1'')
     = Inl InvalidDataLength \<and>
   parse_event_data (''0x'' @ replicate 24 CHR ''0'' @ replicate 40 CHR ''a'' @ replicate 63 CHR ''0'' @ ''1'')
     = Inr (''0x'' @ replicate 40 CHR ''a'', 1)"
proof -
  have "replicate 24 CHR ''0'' @ replicate 40 CHR ''a'' @ replicate 63 CHR ''0'' @ ''1'' =
        replicate 24 CHR ''0'' @ replicate 40 CHR ''a'' @ hex_word 1"
    by (simp add: hex_word_def show_radix.simps digit_chars_def)
  then have "parse_event_data (''0x'' @ replicate 24 CHR ''0'' @ replicate 40 CHR ''a'' @ replicate 63 CHR ''0'' @ ''1'')
       = parse_event_data (abi_payload (replicate 40 CHR ''a'') 1)"
    by (simp add: abi_payload_def)
  also have "\<dots> = Inr (''0x'' @ replicate 40 CHR ''a'', 1)"
    by (simp add: abi_payload_def parse_event_data_def hex_word_def show_radix.simps digit_chars_def
        string_to_bigint_def js_trim_def js_ws_def radix_prefix_def digits_value_def radix_digit_def
        js_slice_def digits_acc_zeros)
  finally show ?thesis by (simp add: parse_event_data_def)
qed

subsection \<open>One record, one page, many cycles\<close>

lemma dispatch_event_refines:
  assumes "ledger_wf us" and "parse_event_data d = Inr (w, a)"
  shows "\<exists>us'. dispatch_event et w a us = Inr us' \<and> ledger_wf us' \<and>
           ledger_view us' = event_abs (e\<lparr>ev_data := d, ev_event_type := et\<rparr>) (ledger_view us)"
  using handle_staked_refines [OF assms(1), of w a] handle_unstaked_refines [OF assms(1), of w a] assms
  by (auto simp: dispatch_event_def event_abs_def)

lemma process_event_no_faults:
  assumes "decodable e" and "ledger_wf (users s)"
  shows "\<exists>us'. process_event no_faults e s =
                 s\<lparr>users := us', event_rows := mark_processed (ev_id e) (event_rows s)\<rparr> \<and>
               ledger_wf us' \<and> ledger_view us' = event_abs e (ledger_view (users s))"
proof -
  obtain w a where p: "parse_event_data (ev_data e) = Inr (w, a)"
    using assms(1) by (cases "parse_event_data (ev_data e)") (auto simp: decodable_def)
  obtain us' where d: "dispatch_event (ev_event_type e) w a (users s) = Inr us'"
    and wf: "ledger_wf us'" and v: "ledger_view us' = event_abs e (ledger_view (users s))"
    using dispatch_event_refines [OF assms(2) p, of "ev_event_type e" e] by auto
  show ?thesis
    using p d wf v by (intro exI [of _ us']) (simp add: process_event_def no_faults_def)
qed

lemma fold_process_event_no_faults:
  assumes "\<forall>e\<in>set es. decodable e" and "ledger_wf (users s)"
  shows "\<exists>us'. fold (process_event no_faults) es s =
                 s\<lparr>users := us', event_rows := fold mark_processed (map ev_id es) (event_rows s)\<rparr> \<and>
               ledger_wf us' \<and> ledger_view us' = fold event_abs es (ledger_view (users s))"
  using assms
proof (induction es arbitrary: s)
  case Nil
  then show ?case by (intro exI [of _ "users s"]) simp
next
  case (Cons e es)
  obtain us1 where s1: "process_event no_faults e s =
      s\<lparr>users := us1, event_rows := mark_processed (ev_id e) (event_rows s)\<rparr>"
    and wf1: "ledger_wf us1" and v1: "ledger_view us1 = event_abs e (ledger_view (users s))"
    using process_event_no_faults Cons.prems by (metis list.set_intros(1))
  let ?s1 = "s\<lparr>users := us1, event_rows := mark_processed (ev_id e) (event_rows s)\<rparr>"
  obtain us' where IH: "fold (process_event no_faults) es ?s1 =
      ?s1\<lparr>users := us', event_rows := fold mark_processed (map ev_id es) (event_rows ?s1)\<rparr>"
    and wf: "ledger_wf us'" and v: "ledger_view us' = fold event_abs es (ledger_view us1)"
    using Cons.IH [of ?s1] Cons.prems wf1 by auto
  show ?case
    using s1 IH wf v v1 by (intro exI [of _ us']) simp
qed

lemma filter_unprocessed_mark:
  "filter (\<lambda>r. unprocessed r \<and> P (ev_id r)) (mark_processed i rows) =
   filter (\<lambda>r. unprocessed r \<and> ev_id r \<noteq> i \<and> P (ev_id r)) rows"
  by (induction rows) (auto simp: mark_processed_def update_where_def unprocessed_def)

lemma filter_unprocessed_marks:
  "filter (\<lambda>r. unprocessed r \<and> P (ev_id r)) (fold mark_processed ids rows) =
   filter (\<lambda>r. unprocessed r \<and> ev_id r \<notin> set ids \<and> P (ev_id r)) rows"
proof (induction ids arbitrary: rows P)
  case Nil
  then show ?case by simp
next
  case (Cons i ids)
  have "filter (\<lambda>r. unprocessed r \<and> P (ev_id r)) (fold mark_processed ids (mark_processed i rows)) =
        filter (\<lambda>r. unprocessed r \<and> ev_id r \<notin> set ids \<and> P (ev_id r)) (mark_processed i rows)"
    by (rule Cons.IH)
  also have "\<dots> = filter (\<lambda>r. unprocessed r \<and> ev_id r \<noteq> i \<and> ev_id r \<notin> set ids \<and> P (ev_id r)) rows"
    using filter_unprocessed_mark [of "\<lambda>x. x \<notin> set ids \<and> P x" i rows] by simp
  finally show ?case by (simp add: conj_ac)
qed

lemma ev_ids_mark [simp]: "map ev_id (mark_processed i rows) = map ev_id rows"
  by (simp add: mark_processed_def update_where_map_keep)

lemma ev_ids_marks [simp]: "map ev_id (fold mark_processed ids rows) = map ev_id rows"
  by (induction ids arbitrary: rows) simp_all

lemma filter_ids_take:
  assumes "distinct (map ev_id U)"
  shows "filter (\<lambda>r. ev_id r \<notin> set (map ev_id (take n U))) U = drop n U"
proof -
  let ?Q = "\<lambda>r. ev_id r \<notin> set (map ev_id (take n U))"
  have d: "distinct (map ev_id (take n U) @ map ev_id (drop n U))"
    using assms by (simp only: map_append [symmetric] append_take_drop_id)
  have "filter ?Q (take n U) = []" by (simp add: filter_empty_conv)
  moreover have "filter ?Q (drop n U) = drop n U"
  proof (rule filter_True, rule ballI)
    fix r assume "r \<in> set (drop n U)"
    then have "ev_id r \<in> set (map ev_id (drop n U))" by simp
    with d show "?Q r" by (auto simp only: distinct_append disjoint_iff)
  qed
  ultimately show ?thesis by (metis append_Nil append_take_drop_id filter_append)
qed

lemma page_decodable:
  "parse_ready s \<Longrightarrow> \<forall>e\<in>set (unprocessed_page s). decodable e"
  by (auto simp: parse_ready_def unprocessed_page_def list_all_iff dest: in_set_takeD)

lemma sync_parse_body_no_faults:
  assumes "parse_ready s"
  shows "\<exists>us'. sync_parse_body no_faults s =
            s\<lparr>users := us', event_rows := fold mark_processed (map ev_id (unprocessed_page s)) (event_rows s)\<rparr> \<and>
          ledger_wf us' \<and> ledger_view us' = fold event_abs (unprocessed_page s) (ledger_view (users s))"
  using fold_process_event_no_faults [OF page_decodable [OF assms]] assms
  by (simp add: sync_parse_body_def parse_ready_def no_faults_def)

lemma sync_parse_unprocessed_drop:
  assumes "parse_ready s"
  shows "filter unprocessed (event_rows (sync_parse_body no_faults s)) =
         drop parse_page_size (filter unprocessed (event_rows s))"
proof -
  let ?U = "filter unprocessed (event_rows s)"
  obtain us' where eq: "sync_parse_body no_faults s =
      s\<lparr>users := us', event_rows := fold mark_processed (map ev_id (unprocessed_page s)) (event_rows s)\<rparr>"
    using sync_parse_body_no_faults [OF assms] by blast
  have d: "distinct (map ev_id ?U)"
    using assms by (simp add: parse_ready_def distinct_map_filter)
  have "filter unprocessed (fold mark_processed (map ev_id (unprocessed_page s)) (event_rows s)) =
        filter (\<lambda>r. ev_id r \<notin> set (map ev_id (take parse_page_size ?U))) ?U"
    using filter_unprocessed_marks [of "\<lambda>_. True" "map ev_id (unprocessed_page s)" "event_rows s"]
    by (simp add: unprocessed_page_def filter_filter conj_commute)
  also have "\<dots> = drop parse_page_size ?U" using d by (rule filter_ids_take)
  finally show ?thesis using eq by simp
qed

lemma marks_keep_ready:
  "list_all (\<lambda>e. unprocessed e \<longrightarrow> decodable e) rows \<Longrightarrow>
   list_all (\<lambda>e. unprocessed e \<longrightarrow> decodable e) (fold mark_processed ids rows)"
proof (induction ids arbitrary: rows)
  case Nil
  then show ?case by simp
next
  case (Cons i ids)
  have "list_all (\<lambda>e. unprocessed e \<longrightarrow> decodable e) (mark_processed i rows)"
    using Cons.prems by (auto simp: mark_processed_def update_where_def list_all_iff unprocessed_def)
  then show ?case using Cons.IH by simp
qed

lemma sync_parse_keeps_ready:
  assumes "parse_ready s"
  shows "parse_ready (sync_parse_body no_faults s)"
  using sync_parse_body_no_faults [OF assms] assms marks_keep_ready
  by (auto simp: parse_ready_def)

text \<open>C1 (liveness). Without store faults, on a store whose event ids are distinct, whose
  ledger is well formed and whose unprocessed records all decode, \<open>k\<close> parse cycles
  process every record once there are at most \<open>10 k\<close> unprocessed ones.\<close>

theorem sync_parse_liveness:
  assumes "parse_ready s" and "length (filter unprocessed (event_rows s)) \<le> parse_page_size * k"
  shows "filter unprocessed (event_rows ((sync_parse_body no_faults ^^ k) s)) = []"
  using assms
proof (induction k arbitrary: s)
  case 0
  then show ?case by simp
next
  case (Suc k)
  let ?s' = "sync_parse_body no_faults s"
  have "parse_ready ?s'" using Suc.prems(1) by (rule sync_parse_keeps_ready)
  moreover have "length (filter unprocessed (event_rows ?s')) \<le> parse_page_size * k"
    using Suc.prems sync_parse_unprocessed_drop [OF Suc.prems(1)] by simp
  ultimately have "filter unprocessed (event_rows ((sync_parse_body no_faults ^^ k) ?s')) = []"
    by (rule Suc.IH)
  then show ?case by (simp add: funpow_Suc_right del: funpow.simps)
qed

text \<open>C2 (refinement). Under the same conditions one parse cycle changes the ledger, read
  as wallet to (total staked, total unstaked, current staked), exactly by the abstract
  booking of the page's records in page order.\<close>

theorem sync_parse_refines_ledger:
  assumes "parse_ready s"
  shows "ledger_view (users (sync_parse_body no_faults s)) =
         fold event_abs (unprocessed_page s) (ledger_view (users s))"
  using sync_parse_body_no_faults [OF assms] by auto

lemma process_event_malformed:
  assumes "\<not> decodable e"
  shows "process_event flt e s = s"
  using assms by (auto simp: process_event_def decodable_def split: sum.splits)

text \<open>C22 (liveness, code bug). When the ten oldest unprocessed records cannot be decoded,
  every later parse cycle leaves the store unchanged: the page query has no ordering or
  offset past failures, so any record behind them is never processed.\<close>

theorem sync_parse_starvation:
  assumes "\<forall>e\<in>set (unprocessed_page s). \<not> decodable e"
  shows "(sync_parse_body flt ^^ k) s = s"
proof -
  have "fold (process_event flt) es s = s" if "\<forall>e\<in>set es. \<not> decodable e" for es
    using that by (induction es) (simp_all add: process_event_malformed)
  then have "sync_parse_body flt s = s"
    using assms by (simp add: sync_parse_body_def)
  then show ?thesis by (induction k) simp_all
qed

subsection \<open>Fixture facts, error paths and the findings of the parse cycle\<close>

lemma demo_event_decode: "parse_event_data (ev_data demo_event) = Inr (''0x'' @ replicate 40 CHR ''a'', 5)"
  by (simp add: demo_event_def abi_payload_def parse_event_data_def hex_word_def show_radix.simps
      digit_chars_def string_to_bigint_def js_trim_def js_ws_def radix_prefix_def digits_value_def
      radix_digit_def js_slice_def digits_acc_zeros)

lemma demo_store_ready: "parse_ready demo_store"
  by (simp add: parse_ready_def demo_store_def ledger_wf_def decodable_def demo_event_decode)

lemma sync_parse_liveness_witness:
  "parse_ready demo_store \<and> filter unprocessed (event_rows ((sync_parse_body no_faults ^^ 1) demo_store)) = []"
  using demo_store_ready sync_parse_liveness [of demo_store 1]
  by (simp add: demo_store_def parse_page_size_def)

lemma mark_step_keeps:
  assumes "e \<in> set rows" and "ev_id e \<noteq> i"
  shows "e \<in> set (mark_processed i rows)"
  using assms unfolding mark_processed_def by (rule update_where_keeps)

lemma process_event_rows_cases:
  "event_rows (process_event flt e' s) = event_rows s \<or>
   (decodable e' \<and> event_rows (process_event flt e' s) = mark_processed (ev_id e') (event_rows s))"
proof (cases "parse_event_data (ev_data e')")
  case (Inl err)
  then show ?thesis by (simp add: process_event_def)
next
  case (Inr p)
  then obtain w a where p: "parse_event_data (ev_data e') = Inr (w, a)" by (cases p) auto
  then have "decodable e'" by (simp add: decodable_def)
  with p show ?thesis
    by (cases "dispatch_event (ev_event_type e') w a (users s)") (simp_all add: process_event_def)
qed

lemma fold_process_keeps:
  assumes "e \<in> set (event_rows s)" and "\<forall>e'\<in>set es. decodable e' \<longrightarrow> ev_id e' \<noteq> ev_id e"
  shows "e \<in> set (event_rows (fold (process_event flt) es s))"
  using assms
proof (induction es arbitrary: s)
  case Nil
  then show ?case by simp
next
  case (Cons e' es)
  have "e \<in> set (event_rows (process_event flt e' s))"
    using process_event_rows_cases [of flt e' s] Cons.prems mark_step_keeps by auto
  then show ?case using Cons.IH Cons.prems by simp
qed

text \<open>C21 (error). A record whose payload does not decode is still in the table, unchanged
  and so still unprocessed, after a parse cycle, whatever store writes fail.\<close>

theorem sync_parse_malformed_kept:
  assumes "e \<in> set (event_rows s)" and "\<not> decodable e" and "distinct (map ev_id (event_rows s))"
  shows "e \<in> set (event_rows (sync_parse_body flt s))"
proof -
  have "\<forall>e'\<in>set (unprocessed_page s). decodable e' \<longrightarrow> ev_id e' \<noteq> ev_id e"
  proof (intro ballI impI)
    fix e' assume e': "e' \<in> set (unprocessed_page s)" "decodable e'"
    then have "e' \<in> set (event_rows s)" by (auto simp: unprocessed_page_def dest: in_set_takeD)
    moreover have "e' \<noteq> e" using e'(2) assms(2) by auto
    moreover have "inj_on ev_id (set (event_rows s))" using assms(3) by (simp add: distinct_map)
    ultimately show "ev_id e' \<noteq> ev_id e"
      using assms(1) by (metis inj_onD)
  qed
  then show ?thesis
    using assms(1) fold_process_keeps by (simp add: sync_parse_body_def)
qed

lemma truncated_event_malformed [simp]: "\<not> decodable (truncated_event i)"
  by (simp add: truncated_event_def decodable_def parse_event_data_def)

lemma demo_event_simps [simp]:
  "ev_id demo_event = 1" "ev_version demo_event = 0" "ev_event_type demo_event = ''Staked''"
  "decodable demo_event" "unprocessed demo_event"
  by (simp_all add: unprocessed_def add: demo_event_def decodable_def demo_event_decode [unfolded demo_event_def, simplified])

lemma ev_id_truncated [simp]:
  "ev_id (truncated_event i) = i" "ev_version (truncated_event i) = 0" "unprocessed (truncated_event i)"
  by (simp_all add: truncated_event_def unprocessed_def demo_event_def)

lemma sync_parse_malformed_kept_witness:
  "truncated_event 2 \<in> set (event_rows (sync_parse_body no_faults mixed_store))"
  using sync_parse_malformed_kept [of "truncated_event 2" mixed_store no_faults]
  by (simp add: mixed_store_def demo_store_def)

lemma sync_parse_starvation_witness:
  "(sync_parse_body no_faults ^^ 7) poisoned_store = poisoned_store \<and> demo_event \<in> set (event_rows poisoned_store) \<and>
   unprocessed demo_event \<and> decodable demo_event"
proof -
  have "\<forall>e\<in>set (unprocessed_page poisoned_store). \<not> decodable e"
    by (simp add: unprocessed_page_def poisoned_store_def demo_store_def parse_page_size_def
        unprocessed_def upt_rec)
  then show ?thesis
    using sync_parse_starvation [where s = poisoned_store and flt = no_faults and k = 7]
    by (simp add: poisoned_store_def unprocessed_def)
qed

text \<open>C23 (safety, finding). The ledger write and the mark write are not atomic: if only
  the mark of a Staked record fails, the ledger is already updated, the record stays
  unprocessed, and the next cycle books the same amount a second time.\<close>

theorem mark_fault_double_booking:
  assumes "ledger_wf (users s)" and "parse_event_data (ev_data e) = Inr (w, a)"
    and "ev_event_type e = ''Staked''"
  shows "event_rows (process_event (mark_fault (ev_id e)) e s) = event_rows s \<and>
         ledger_view (users (process_event no_faults e (process_event (mark_fault (ev_id e)) e s))) =
         stake_abs (stake_abs (ledger_view (users s)) w a) w a"
proof -
  obtain us1 where d: "dispatch_event (ev_event_type e) w a (users s) = Inr us1"
    and wf1: "ledger_wf us1" and v1: "ledger_view us1 = event_abs e (ledger_view (users s))"
    using dispatch_event_refines [OF assms(1,2), of "ev_event_type e" e] by auto
  have s1: "process_event (mark_fault (ev_id e)) e s = s\<lparr>users := us1\<rparr>"
    using assms(2) d by (simp add: process_event_def mark_fault_def)
  have dec: "decodable e" using assms(2) by (simp add: decodable_def)
  obtain us2 where s2: "process_event no_faults e (s\<lparr>users := us1\<rparr>) =
      s\<lparr>users := us2, event_rows := mark_processed (ev_id e) (event_rows s)\<rparr>"
    and v2: "ledger_view us2 = event_abs e (ledger_view us1)"
    using process_event_no_faults [OF dec, of "s\<lparr>users := us1\<rparr>"] wf1 by auto
  have abs: "\<And>m. event_abs e m = stake_abs m w a" using assms(2,3) by (simp add: event_abs_def)
  show ?thesis using s1 s2 v1 v2 abs by simp
qed

lemma mark_fault_double_booking_witness:
  "ledger_view (users (process_event no_faults demo_event (process_event (mark_fault 1) demo_event demo_store)))
     (''0x'' @ replicate 40 CHR ''a'') = Some (10, 0, 10)"
  using mark_fault_double_booking [of demo_store demo_event "''0x'' @ replicate 40 CHR ''a''" 5]
  by (simp add: demo_store_def demo_event_decode ledger_wf_def ledger_view_def get_user_def stake_abs_def)

text \<open>C24 (error, divergence). When the ledger update throws (the wallet's stored
  \<open>current_staked\<close> is not a BigInt literal) the record is not marked processed: the
  mark write is inside the same \<open>try\<close> block, not unconditional.\<close>

theorem process_event_ledger_error_unmarked:
  assumes "parse_event_data (ev_data e) = Inr (w, a)" and "writes_ledger (ev_event_type e)"
    and "get_user w (users s) = Some u" and "string_to_bigint (current_staked u) = None"
  shows "process_event flt e s = s"
  using assms
  by (auto simp: process_event_def dispatch_event_def writes_ledger_def handle_staked_def
      handle_unstaked_def split: option.splits)

lemma process_event_ledger_error_unmarked_witness:
  "process_event no_faults demo_event corrupt_ledger_store = corrupt_ledger_store \<and> unprocessed demo_event"
proof -
  have "string_to_bigint ''abc'' = None"
    by (simp add: string_to_bigint_def js_trim_def js_ws_def radix_prefix_def decimal_literal_def
        digits_value_def radix_digit_def)
  then show ?thesis
    using process_event_ledger_error_unmarked [of demo_event "''0x'' @ replicate 40 CHR ''a''" 5
            corrupt_ledger_store "hd (users corrupt_ledger_store)" no_faults]
    by (simp add: demo_event_decode writes_ledger_def corrupt_ledger_store_def get_user_def unprocessed_def)
qed

lemma sync_parse_refines_ledger_witness:
  "ledger_view (users (sync_parse_body no_faults demo_store)) (''0x'' @ replicate 40 CHR ''a'') = Some (5, 0, 5)"
  using demo_store_ready sync_parse_refines_ledger [of demo_store]
  by (simp add: demo_store_def unprocessed_page_def parse_page_size_def event_abs_def
      demo_event_decode stake_abs_def ledger_view_def get_user_def)

end
