(* ===== verification/SqlBuilder.thy ===== *)
theory SqlBuilder
  imports BigIntStr QueryBuilder
begin

text \<open>
  The statement builders of \<open>MySQLQueryBuilder\<close> (\<open>src/src/utils/mysqlQueryBuilder.ts\<close>,
  compiled to \<open>src/dist/utils/mysqlQueryBuilder.js\<close>): each public method renders one SQL
  text with \<open>?\<close> placeholders and the list of values bound to them, and hands both to
  \<open>pool.execute\<close>. The model renders the same text and values. A JavaScript object is an
  association list in \<open>Object.entries\<close> order; a bound value is a string, an integer,
  \<open>null\<close> or \<open>undefined\<close> (a key an item of a batch lacks). Numbers in the text
  (\<open>LIMIT\<close>) are integers and are printed in decimal.
\<close>

datatype sql_value = VStr string | VNum int | VNull | VUndef

text \<open>The \<open>Operator\<close> union of the source, one constructor per literal, and the text
  each one is rendered as.\<close>

datatype operator = OpEq | OpGt | OpLt | OpGe | OpLe | OpNe | OpLike | OpIsNull | OpIsNotNull

primrec operator_str :: "operator \<Rightarrow> string" where
  "operator_str OpEq = ''=''"
| "operator_str OpGt = ''>''"
| "operator_str OpLt = ''<''"
| "operator_str OpGe = ''>=''"
| "operator_str OpLe = ''<=''"
| "operator_str OpNe = ''!=''"
| "operator_str OpLike = ''LIKE''"
| "operator_str OpIsNull = ''IS NULL''"
| "operator_str OpIsNotNull = ''IS NOT NULL''"

text \<open>A value of a \<open>WhereCondition\<close>: \<open>null\<close>, a scalar, or an operator object
  \<open>{ [op in Operator]?: string | number }\<close>, its entries in insertion order.\<close>

datatype where_val = WNull | WVal sql_value | WOps "(operator \<times> sql_value) list"

type_synonym where_cond = "(string \<times> where_val) list"

type_synonym sql_row = "(string \<times> sql_value) list"

definition null_op :: "operator \<Rightarrow> bool" where
  "null_op op \<longleftrightarrow> op = OpIsNull \<or> op = OpIsNotNull"

text \<open>The inner loop \<open>for (const [op, val] of Object.entries(value))\<close>, pushing onto
  \<open>conditions\<close> and \<open>values\<close>.\<close>

fun ops_loop :: "string \<Rightarrow> (operator \<times> sql_value) list \<Rightarrow> string list \<Rightarrow> sql_value list \<Rightarrow>
    string list \<times> sql_value list" where
  "ops_loop key [] cs vs = (cs, vs)"
| "ops_loop key ((op, v) # ops) cs vs =
     (if null_op op then ops_loop key ops (cs @ [key @ '' '' @ operator_str op]) vs
      else ops_loop key ops (cs @ [key @ '' '' @ operator_str op @ '' ?'']) (vs @ [v]))"

text \<open>The outer loop \<open>for (const [key, value] of Object.entries(where))\<close>.\<close>

fun where_loop :: "where_cond \<Rightarrow> string list \<Rightarrow> sql_value list \<Rightarrow> string list \<times> sql_value list" where
  "where_loop [] cs vs = (cs, vs)"
| "where_loop ((key, WNull) # w) cs vs = where_loop w (cs @ [key @ '' IS NULL'']) vs"
| "where_loop ((key, WOps ops) # w) cs vs = (let (cs', vs') = ops_loop key ops cs vs in where_loop w cs' vs')"
| "where_loop ((key, WVal v) # w) cs vs = where_loop w (cs @ [key @ '' = ?'']) (vs @ [v])"

definition build_where :: "where_cond \<Rightarrow> string \<times> sql_value list" where
  "build_where w =
     (if w = [] then ([], [])
      else (let (cs, vs) = where_loop w [] [] in ('' WHERE '' @ js_join '' AND '' cs, vs)))"

datatype join_type = JInner | JLeft | JRight | JFull

primrec join_type_str :: "join_type \<Rightarrow> string" where
  "join_type_str JInner = ''INNER''"
| "join_type_str JLeft = ''LEFT''"
| "join_type_str JRight = ''RIGHT''"
| "join_type_str JFull = ''FULL''"

record join_clause =
  j_type :: join_type
  j_table :: string
  j_left :: string
  j_right :: string

definition build_join :: "join_clause list \<Rightarrow> string" where
  "build_join js =
     (if js = [] then []
      else js_join '' '' (map (\<lambda>j. join_type_str (j_type j) @ '' JOIN '' @ j_table j @ '' ON '' @
                                    j_left j @ '' = '' @ j_right j) js))"

datatype direction = Asc | Desc

primrec direction_str :: "direction \<Rightarrow> string" where
  "direction_str Asc = ''ASC''"
| "direction_str Desc = ''DESC''"

definition build_order_by :: "(string \<times> direction) option \<Rightarrow> string" where
  "build_order_by ob = (case ob of None \<Rightarrow> [] | Some (f, d) \<Rightarrow> '' ORDER BY '' @ f @ '' '' @ direction_str d)"

text \<open>\<open>string | string[]\<close>.\<close>

datatype str_or_list = One string | Many "string list"

primrec str_or_list_text :: "str_or_list \<Rightarrow> string" where
  "str_or_list_text (One s) = s"
| "str_or_list_text (Many xs) = js_join '', '' xs"

text \<open>\<open>if (!groupBy)\<close>: absent or the empty string.\<close>

definition build_group_by :: "str_or_list option \<Rightarrow> string" where
  "build_group_by gb =
     (case gb of None \<Rightarrow> [] | Some (One []) \<Rightarrow> [] | Some g \<Rightarrow> '' GROUP BY '' @ str_or_list_text g)"

definition build_limit :: "(int \<times> int option) option \<Rightarrow> string" where
  "build_limit lim =
     (case lim of
        None \<Rightarrow> []
      | Some (cnt, Some off) \<Rightarrow> '' LIMIT '' @ bigint_to_string off @ '', '' @ bigint_to_string cnt
      | Some (cnt, None) \<Rightarrow> '' LIMIT '' @ bigint_to_string cnt)"

record query_options =
  q_table :: string
  q_fields :: "str_or_list option"
  q_where :: where_cond
  q_order :: "(string \<times> direction) option"
  q_group :: "str_or_list option"
  q_limit :: "(int \<times> int option) option"
  q_joins :: "join_clause list"

text \<open>\<open>select\<close>: \<open>fields = '*'\<close> when absent.\<close>

definition select_sql :: "query_options \<Rightarrow> string \<times> sql_value list" where
  "select_sql q =
     (let (wsql, wvals) = build_where (q_where q);
          fl = (case q_fields q of None \<Rightarrow> ''*'' | Some f \<Rightarrow> str_or_list_text f)
      in (''SELECT '' @ fl @ '' FROM '' @ q_table q @ build_join (q_joins q) @ wsql @
          build_group_by (q_group q) @ build_order_by (q_order q) @ build_limit (q_limit q), wvals))"

definition insert_sql :: "string \<Rightarrow> sql_row \<Rightarrow> string \<times> sql_value list" where
  "insert_sql table row =
     (''INSERT INTO '' @ table @ '' ('' @ js_join '', '' (map fst row) @ '') VALUES ('' @
      js_join '', '' (map (\<lambda>_. ''?'') row) @ '')'', map snd row)"

definition update_sql :: "string \<Rightarrow> sql_row \<Rightarrow> where_cond \<Rightarrow> string \<times> sql_value list" where
  "update_sql table data w =
     (let (wsql, wvals) = build_where w
      in (''UPDATE '' @ table @ '' SET '' @ js_join '', '' (map (\<lambda>(k, _). k @ '' = ?'') data) @ wsql,
          map snd data @ wvals))"

definition delete_sql :: "string \<Rightarrow> where_cond \<Rightarrow> string \<times> sql_value list" where
  "delete_sql table w = (let (wsql, wvals) = build_where w in (''DELETE FROM '' @ table @ wsql, wvals))"

definition count_sql :: "string \<Rightarrow> where_cond \<Rightarrow> string \<times> sql_value list" where
  "count_sql table w =
     (let (wsql, wvals) = build_where w in (''SELECT COUNT(*) as total FROM '' @ table @ wsql, wvals))"

text \<open>\<open>item[key]\<close>: \<open>undefined\<close> for a key the item lacks.\<close>

definition item_value :: "sql_row \<Rightarrow> string \<Rightarrow> sql_value" where
  "item_value item k = (case map_of item k of Some v \<Rightarrow> v | None \<Rightarrow> VUndef)"

text \<open>One statement of \<open>insertBatch\<close>: the columns are the keys of the slice's first item.\<close>

definition batch_stmt :: "string \<Rightarrow> sql_row list \<Rightarrow> string \<times> sql_value list" where
  "batch_stmt table batch =
     (let keys = map fst (hd batch);
          placeholders = js_join '', '' (map (\<lambda>_. ''?'') keys)
      in (''INSERT INTO '' @ table @ '' ('' @ js_join '', '' keys @ '') VALUES '' @
          js_join '', '' (map (\<lambda>_. ''('' @ placeholders @ '')'') batch),
          concat (map (\<lambda>item. map (item_value item) keys) batch)))"

definition insert_batch_sql :: "string \<Rightarrow> sql_row list \<Rightarrow> (string \<times> sql_value list) list" where
  "insert_batch_sql table rows =
     (if rows = [] then [] else map (batch_stmt table) (batch_slices batch_size rows))"

subsection \<open>The query of \<open>StakeController.getStakes\<close>\<close>

definition get_stakes_query :: query_options where
  "get_stakes_query =
     \<lparr>q_table = ''stakes'', q_fields = Some (Many [''stakes.address'', ''stakes.amount'', ''users.name'']),
      q_where = [(''amount'', WOps [(OpGt, VNum 0)])], q_order = Some (''amount'', Desc), q_group = None,
      q_limit = Some (100, None),
      q_joins = [\<lparr>j_type = JLeft, j_table = ''users'', j_left = ''stakes.address'', j_right = ''users.address''\<rparr>]\<rparr>"

subsection \<open>Specification helpers\<close>

text \<open>The number of \<open>?\<close> in a text, and names free of them.\<close>

definition qmarks :: "string \<Rightarrow> nat" where
  "qmarks s = length (filter (\<lambda>c. c = CHR ''?'') s)"

definition ident_ok :: "string \<Rightarrow> bool" where
  "ident_ok s \<longleftrightarrow> CHR ''?'' \<notin> set s"

text \<open>The declarative reading of \<open>buildWhereClause\<close>: the conditions and values each
  entry contributes.\<close>

definition op_cond :: "string \<Rightarrow> operator \<times> sql_value \<Rightarrow> string" where
  "op_cond key ov =
     (if null_op (fst ov) then key @ '' '' @ operator_str (fst ov) else key @ '' '' @ operator_str (fst ov) @ '' ?'')"

definition op_vals :: "(operator \<times> sql_value) list \<Rightarrow> sql_value list" where
  "op_vals ops = map snd (filter (\<lambda>ov. \<not> null_op (fst ov)) ops)"

fun entry_conds :: "string \<Rightarrow> where_val \<Rightarrow> string list \<times> sql_value list" where
  "entry_conds k WNull = ([k @ '' IS NULL''], [])"
| "entry_conds k (WVal v) = ([k @ '' = ?''], [v])"
| "entry_conds k (WOps ops) = (map (op_cond k) ops, op_vals ops)"

definition where_spec :: "where_cond \<Rightarrow> string list \<times> sql_value list" where
  "where_spec w = (concat (map (\<lambda>(k, v). fst (entry_conds k v)) w), concat (map (\<lambda>(k, v). snd (entry_conds k v)) w))"

definition where_idents_ok :: "where_cond \<Rightarrow> bool" where
  "where_idents_ok w \<longleftrightarrow> (\<forall>kv \<in> set w. ident_ok (fst kv))"

primrec sol_items :: "str_or_list \<Rightarrow> string list" where
  "sol_items (One s) = [s]"
| "sol_items (Many xs) = xs"

definition select_idents_ok :: "query_options \<Rightarrow> bool" where
  "select_idents_ok q \<longleftrightarrow>
     ident_ok (q_table q) \<and> where_idents_ok (q_where q) \<and>
     (case q_fields q of None \<Rightarrow> True | Some f \<Rightarrow> list_all ident_ok (sol_items f)) \<and>
     (case q_group q of None \<Rightarrow> True | Some g \<Rightarrow> list_all ident_ok (sol_items g)) \<and>
     (case q_order q of None \<Rightarrow> True | Some od \<Rightarrow> ident_ok (fst od)) \<and>
     list_all (\<lambda>j. ident_ok (j_table j) \<and> ident_ok (j_left j) \<and> ident_ok (j_right j)) (q_joins q)"

subsection \<open>Lemmas\<close>

lemma qmarks_append [simp]: "qmarks (xs @ ys) = qmarks xs + qmarks ys"
  by (simp add: qmarks_def)

lemma qmarks_simps [simp]: "qmarks [] = 0" "qmarks (c # s) = (if c = CHR ''?'' then Suc (qmarks s) else qmarks s)"
  by (simp_all add: qmarks_def)

lemma qmarks_ident: "ident_ok s \<Longrightarrow> qmarks s = 0"
  by (simp add: qmarks_def ident_ok_def filter_empty_conv) blast

lemma qmarks_js_join:
  "qmarks (js_join sep xs) = sum_list (map qmarks xs) + (length xs - 1) * qmarks sep"
  by (induction sep xs rule: js_join.induct) simp_all

lemma ops_loop_spec: "ops_loop key ops cs vs = (cs @ map (op_cond key) ops, vs @ op_vals ops)"
  by (induction key ops cs vs rule: ops_loop.induct) (simp_all add: op_cond_def op_vals_def)

lemma where_loop_spec: "where_loop w cs vs = (cs @ fst (where_spec w), vs @ snd (where_spec w))"
  by (induction w cs vs rule: where_loop.induct) (simp_all add: where_spec_def ops_loop_spec)

lemma ident_ok_operator_str [simp]: "ident_ok (operator_str op)"
  by (cases op) (simp_all add: ident_ok_def)

lemma qmarks_op_cond:
  "ident_ok key \<Longrightarrow> qmarks (op_cond key ov) = (if null_op (fst ov) then 0 else 1)"
  by (simp add: op_cond_def qmarks_ident)

lemma qmarks_ops:
  "ident_ok key \<Longrightarrow> sum_list (map (qmarks \<circ> op_cond key) ops) = length (op_vals ops)"
  by (induction ops) (simp_all add: qmarks_op_cond op_vals_def)

lemma where_spec_qmarks:
  "where_idents_ok w \<Longrightarrow> sum_list (map qmarks (fst (where_spec w))) = length (snd (where_spec w))"
proof (induction w)
  case Nil
  then show ?case by (simp add: where_spec_def)
next
  case (Cons kv w)
  obtain k v where kv: "kv = (k, v)" by (cases kv)
  have ok: "ident_ok k" "where_idents_ok w" using Cons.prems kv by (simp_all add: where_idents_ok_def)
  have e: "sum_list (map qmarks (fst (entry_conds k v))) = length (snd (entry_conds k v))"
  proof (cases v)
    case (WOps ops)
    then show ?thesis using ok(1) qmarks_ops [of k ops] by (simp add: comp_def)
  qed (simp_all add: qmarks_ident ok(1))
  show ?case using Cons.IH [OF ok(2)] e kv by (simp add: where_spec_def)
qed

lemma build_where_placeholders:
  assumes that: "where_idents_ok w"
  shows "qmarks (fst (build_where w)) = length (snd (build_where w))"
proof -
  obtain cs vs where ws: "where_spec w = (cs, vs)" by (cases "where_spec w")
  then show ?thesis using where_spec_qmarks [of w] that
    by (simp add: build_where_def where_loop_spec qmarks_js_join)
qed

lemma qmarks_js_join_idents: "list_all ident_ok xs \<Longrightarrow> ident_ok sep \<Longrightarrow> qmarks (js_join sep xs) = 0"
proof -
  assume a: "list_all ident_ok xs" "ident_ok sep"
  then have "sum_list (map qmarks xs) = 0" by (induction xs) (simp_all add: qmarks_ident)
  then show ?thesis using a by (simp add: qmarks_js_join qmarks_ident)
qed

lemma ident_ok_simps [simp]: "ident_ok '', ''" "ident_ok '' ''" "ident_ok '' AND ''"
  by (simp_all add: ident_ok_def)

lemma qmarks_sol: "list_all ident_ok (sol_items f) \<Longrightarrow> qmarks (str_or_list_text f) = 0"
  by (cases f) (simp_all add: qmarks_ident qmarks_js_join_idents)

lemma qmarks_bigint: "qmarks (bigint_to_string i) = 0"
proof -
  have "\<And>n. qmarks (show_radix 10 n) = 0"
    using show_decimal_chars by (force simp: qmarks_def filter_empty_conv)
  then show ?thesis by (simp add: bigint_to_string_def)
qed

lemma qmarks_keywords [simp]: "qmarks (direction_str d) = 0" "qmarks (join_type_str jt) = 0"
  by (cases d, simp_all) (cases jt, simp_all)

lemma join_type_ident [simp]: "ident_ok (join_type_str jt)"
  by (cases jt) (simp_all add: ident_ok_def)

lemma ident_ok_append [simp]: "ident_ok (xs @ ys) \<longleftrightarrow> ident_ok xs \<and> ident_ok ys"
  by (auto simp: ident_ok_def)

lemma ident_ok_Nil [simp]: "ident_ok []"
  by (simp add: ident_ok_def)

lemma ident_ok_Cons [simp]: "ident_ok (c # s) \<longleftrightarrow> c \<noteq> CHR ''?'' \<and> ident_ok s"
  by (auto simp: ident_ok_def)

lemma build_group_by_cases:
  "build_group_by gb = [] \<or> (\<exists>g. gb = Some g \<and> build_group_by gb = '' GROUP BY '' @ str_or_list_text g)"
  by (auto simp: build_group_by_def split: option.split str_or_list.split list.split)

lemma qmarks_clauses:
  "qmarks (build_limit lim) = 0"
  "(case ob of None \<Rightarrow> True | Some od \<Rightarrow> ident_ok (fst od)) \<Longrightarrow> qmarks (build_order_by ob) = 0"
  "(case gb of None \<Rightarrow> True | Some g \<Rightarrow> list_all ident_ok (sol_items g)) \<Longrightarrow> qmarks (build_group_by gb) = 0"
  "list_all (\<lambda>j. ident_ok (j_table j) \<and> ident_ok (j_left j) \<and> ident_ok (j_right j)) js \<Longrightarrow> qmarks (build_join js) = 0"
proof -
  show "qmarks (build_limit lim) = 0"
    by (simp add: build_limit_def qmarks_bigint split: option.split prod.split)
  show "(case ob of None \<Rightarrow> True | Some od \<Rightarrow> ident_ok (fst od)) \<Longrightarrow> qmarks (build_order_by ob) = 0"
    by (auto simp: build_order_by_def qmarks_ident split: option.split prod.split)
  show "(case gb of None \<Rightarrow> True | Some g \<Rightarrow> list_all ident_ok (sol_items g)) \<Longrightarrow> qmarks (build_group_by gb) = 0"
    using build_group_by_cases [of gb] qmarks_sol by fastforce
  assume j: "list_all (\<lambda>j. ident_ok (j_table j) \<and> ident_ok (j_left j) \<and> ident_ok (j_right j)) js"
  have "list_all ident_ok (map (\<lambda>j. join_type_str (j_type j) @ '' JOIN '' @ j_table j @ '' ON '' @
                                    j_left j @ '' = '' @ j_right j) js)"
    using j by (induction js) simp_all
  then have "qmarks (js_join '' '' (map (\<lambda>j. join_type_str (j_type j) @ '' JOIN '' @ j_table j @ '' ON '' @
                                    j_left j @ '' = '' @ j_right j) js)) = 0"
    by (rule qmarks_js_join_idents) simp
  then show "qmarks (build_join js) = 0" by (simp only: build_join_def) simp
qed

lemma qmarks_placeholders: "qmarks (js_join '', '' (map (\<lambda>_. ''?'') xs)) = length xs"
  by (simp add: qmarks_js_join comp_def sum_list_triv)

lemma select_placeholders:
  "select_idents_ok q \<Longrightarrow> qmarks (fst (select_sql q)) = length (snd (select_sql q))"
  using build_where_placeholders [of "q_where q"] qmarks_clauses(2) [of "q_order q"]
    qmarks_clauses(3) [of "q_group q"] qmarks_clauses(4) [of "q_joins q"] qmarks_clauses(1) [of "q_limit q"]
  by (auto simp: select_sql_def select_idents_ok_def qmarks_ident qmarks_sol split: prod.split option.split)

lemma set_clause_qmarks:
  "list_all (ident_ok \<circ> fst) data \<Longrightarrow> qmarks (js_join '', '' (map (\<lambda>(k, _). k @ '' = ?'') data)) = length data"
proof -
  assume a: "list_all (ident_ok \<circ> fst) data"
  then have "sum_list (map qmarks (map (\<lambda>(k, _). k @ '' = ?'') data)) = length data"
    by (induction data) (auto simp: qmarks_ident)
  then show ?thesis by (simp add: qmarks_js_join)
qed

lemma where_statements_placeholders:
  assumes "ident_ok table" and "where_idents_ok w" and "list_all (ident_ok \<circ> fst) data"
  shows "qmarks (fst (update_sql table data w)) = length (snd (update_sql table data w))"
    and "qmarks (fst (delete_sql table w)) = length (snd (delete_sql table w))"
    and "qmarks (fst (count_sql table w)) = length (snd (count_sql table w))"
  using assms build_where_placeholders [OF assms(2)] set_clause_qmarks [OF assms(3)]
  by (auto simp: update_sql_def delete_sql_def count_sql_def qmarks_ident split: prod.split)

lemma insert_placeholders:
  "ident_ok table \<Longrightarrow> list_all (ident_ok \<circ> fst) row \<Longrightarrow> qmarks (fst (insert_sql table row)) = length (snd (insert_sql table row))"
  by (simp add: insert_sql_def qmarks_ident qmarks_js_join_idents qmarks_placeholders list.pred_map)

lemma batch_stmt_placeholders:
  assumes "ident_ok table" and "batch \<noteq> []" and "list_all (ident_ok \<circ> fst) (hd batch)"
  shows "qmarks (fst (batch_stmt table batch)) = length (snd (batch_stmt table batch))"
proof -
  let ?keys = "map fst (hd batch)"
  let ?ph = "js_join '', '' (map (\<lambda>_. ''?'') ?keys)"
  have "qmarks (js_join '', '' (map (\<lambda>_. ''('' @ ?ph @ '')'') batch)) = length batch * length ?keys"
    by (simp add: qmarks_js_join qmarks_placeholders comp_def sum_list_triv)
  moreover have "length (concat (map (\<lambda>item. map (item_value item) ?keys) batch)) = length batch * length ?keys"
    by (simp add: length_concat comp_def sum_list_triv)
  moreover have "qmarks (js_join '', '' ?keys) = 0"
    using assms(3) by (simp add: qmarks_js_join_idents list.pred_map)
  ultimately show ?thesis using assms(1) by (simp add: batch_stmt_def Let_def qmarks_ident)
qed

text \<open>Each statement of \<open>insertBatch\<close> is the \<open>INSERT\<close> of one non-empty chunk of at
  most \<open>batchSize\<close> of the rows.\<close>

lemma insert_batch_sql_stmt:
  assumes "s \<in> set (insert_batch_sql table rows)"
  obtains b where "s = batch_stmt table b" and "b \<noteq> []" and "length b \<le> batch_size" and "set b \<subseteq> set rows"
proof -
  obtain b where b: "b \<in> set (batch_slices batch_size rows)" and s: "s = batch_stmt table b"
    using assms by (auto simp: insert_batch_sql_def split: if_splits)
  have "b \<noteq> [] \<and> length b \<le> batch_size" using batch_slices_bounded [OF _ b] by (simp add: batch_size_def)
  moreover have c: "concat (batch_slices batch_size rows) = rows"
    by (rule concat_batch_slices) (simp add: batch_size_def)
  have "set b \<subseteq> set (concat (batch_slices batch_size rows))" using b by auto
  then have "set b \<subseteq> set rows" by (simp only: c)
  ultimately show ?thesis using s that by blast
qed

lemma batch_stmt_values_length: "length (snd (batch_stmt table b)) = length b * length (hd b)"
  by (simp add: batch_stmt_def Let_def length_concat comp_def sum_list_triv)

text \<open>C10: placeholders and bound values agree. When no table, column or field name
  contains a \<open>?\<close> (operators are the literals of \<open>Operator\<close>, none of which does), every statement the builder renders (\<open>select\<close>, \<open>update\<close>,
  \<open>delete\<close>, \<open>count\<close>, \<open>insert\<close>, each \<open>INSERT\<close> of \<open>insertBatch\<close>) has
  exactly as many \<open>?\<close> as values passed to \<open>pool.execute\<close>.\<close>

theorem statement_placeholders:
  assumes "select_idents_ok q" and "ident_ok table" and "where_idents_ok w"
    and "list_all (ident_ok \<circ> fst) data" and "list_all (ident_ok \<circ> fst) row"
    and "\<forall>r\<in>set rows. list_all (ident_ok \<circ> fst) r"
  shows "qmarks (fst (select_sql q)) = length (snd (select_sql q)) \<and>
         qmarks (fst (update_sql table data w)) = length (snd (update_sql table data w)) \<and>
         qmarks (fst (delete_sql table w)) = length (snd (delete_sql table w)) \<and>
         qmarks (fst (count_sql table w)) = length (snd (count_sql table w)) \<and>
         qmarks (fst (insert_sql table row)) = length (snd (insert_sql table row)) \<and>
         (\<forall>s\<in>set (insert_batch_sql table rows). qmarks (fst s) = length (snd s))"
proof -
  have "\<forall>s\<in>set (insert_batch_sql table rows). qmarks (fst s) = length (snd s)"
  proof
    fix s assume "s \<in> set (insert_batch_sql table rows)"
    then obtain b where s: "s = batch_stmt table b" and ne: "b \<noteq> []" and sub: "set b \<subseteq> set rows"
      by (rule insert_batch_sql_stmt)
    then have "hd b \<in> set rows" using hd_in_set [OF ne] by blast
    then show "qmarks (fst s) = length (snd s)"
      using batch_stmt_placeholders [OF assms(2) ne] assms(6) s by blast
  qed
  then show ?thesis
    using select_placeholders [OF assms(1)] where_statements_placeholders [OF assms(2-4)]
      insert_placeholders [OF assms(2,5)] by blast
qed

lemma js_join_Cons: "js_join sep (x # xs) = x @ (if xs = [] then [] else sep @ js_join sep xs)"
  by (cases xs) simp_all

text \<open>The where builder against its specification. The loops of \<open>buildWhereClause\<close>, which
  push onto \<open>conditions\<close> and \<open>values\<close>, compute the declarative reading: the condition
  texts of the entries in order (\<open>key IS NULL\<close>, \<open>key = ?\<close>, or one \<open>key op ?\<close> /
  \<open>key op\<close> per operator), joined by \<open>AND\<close> after \<open>WHERE\<close>, and the values of the
  conditions that have a placeholder; an empty object gives no clause.\<close>

theorem build_where_equiv:
  "build_where w =
     (if w = [] then ([], []) else ('' WHERE '' @ js_join '' AND '' (fst (where_spec w)), snd (where_spec w)))"
  by (simp add: build_where_def where_loop_spec split: prod.split)

text \<open>C19: the JOIN clause is glued to the table name. \<open>select\<close> renders
  \<open>FROM ${table}${joinClause}\<close> and \<open>buildJoinClause\<close> starts with the join type, so
  for any query with joins the table name is followed directly by \<open>LEFT\<close>,
  \<open>INNER\<close>, ... with no space: the \<open>getStakes\<close> query of \<open>StakeController\<close> reads
  \<open>FROM stakesLEFT JOIN users\<close>, which MySQL rejects or reads as an alias.\<close>

theorem select_join_no_space:
  "q_joins q \<noteq> [] \<Longrightarrow>
   \<exists>rest. fst (select_sql q) =
     ''SELECT '' @ (case q_fields q of None \<Rightarrow> ''*'' | Some f \<Rightarrow> str_or_list_text f) @ '' FROM '' @
     q_table q @ join_type_str (j_type (hd (q_joins q))) @ '' JOIN '' @ rest"
  by (cases "q_joins q") (auto simp: select_sql_def build_join_def js_join_Cons split: prod.split)

lemma select_join_no_space_witness:
  "fst (select_sql get_stakes_query) =
   ''SELECT stakes.address, stakes.amount, users.name FROM stakesLEFT JOIN users ON stakes.address = users.address WHERE amount > ? ORDER BY amount DESC LIMIT 100''"
proof -
  have "q_joins get_stakes_query \<noteq> []" by (simp add: get_stakes_query_def)
  from select_join_no_space [OF this] obtain rest where
    "fst (select_sql get_stakes_query) = ''SELECT stakes.address, stakes.amount, users.name FROM stakesLEFT JOIN '' @ rest"
    by (auto simp: get_stakes_query_def)
  then show ?thesis
    by (simp add: select_sql_def get_stakes_query_def build_join_def build_where_def build_order_by_def
        build_group_by_def build_limit_def bigint_to_string_def null_op_def show_radix_eval digit_chars_def)
qed

lemma statement_placeholders_witness:
  "qmarks (fst (select_sql get_stakes_query)) = 1 \<and>
   qmarks (fst (update_sql ''scan_tasks'' [(''from_block'', VNum 201)] [(''chain_id'', WVal (VNum 1))])) = 2"
proof -
  have "qmarks (fst (select_sql get_stakes_query)) = length (snd (select_sql get_stakes_query)) \<and>
        qmarks (fst (update_sql ''scan_tasks'' [(''from_block'', VNum 201)] [(''chain_id'', WVal (VNum 1))])) =
          length (snd (update_sql ''scan_tasks'' [(''from_block'', VNum 201)] [(''chain_id'', WVal (VNum 1))])) \<and>
        qmarks (fst (delete_sql ''scan_tasks'' [(''chain_id'', WVal (VNum 1))])) = length (snd (delete_sql ''scan_tasks'' [(''chain_id'', WVal (VNum 1))])) \<and>
        qmarks (fst (count_sql ''scan_tasks'' [(''chain_id'', WVal (VNum 1))])) = length (snd (count_sql ''scan_tasks'' [(''chain_id'', WVal (VNum 1))])) \<and>
        qmarks (fst (insert_sql ''scan_tasks'' [(''chain_id'', VNum 1)])) = length (snd (insert_sql ''scan_tasks'' [(''chain_id'', VNum 1)])) \<and>
        (\<forall>s\<in>set (insert_batch_sql ''scan_tasks'' [[(''chain_id'', VNum 1)]]). qmarks (fst s) = length (snd s))"
    by (rule statement_placeholders)
       (simp_all add: select_idents_ok_def get_stakes_query_def where_idents_ok_def)
  then show ?thesis
    by (simp add: select_sql_def get_stakes_query_def build_where_def update_sql_def null_op_def)
qed

end
