(* ===== verification/Queries.thy ===== *)
theory Queries
  imports Ingest Parser SqlBuilder
begin

text \<open>
  The statements the services hand to \<open>MySQLQueryBuilder\<close>, and what the store does with
  them. \<open>BlockchainService.syncEvents\<close> counts existing records
  (\<open>src/src/services/blockchain.ts\<close>, lines 172 to 179) and moves the watermark (lines
  236 to 240); \<open>ParseService\<close> reads a page of unprocessed records, reads a wallet's
  row and marks a record processed (\<open>src/src/services/parse.ts\<close>, lines 38 to 42, 127
  to 132, 147 to 151). A row of a table is an association list from column names
  (\<open>src/src/models\<close>) to values. The store's reading of a \<open>WHERE\<close> object is SQL's:
  \<open>col = v\<close> holds when both sides are non-null and equal (strings compared exactly, as
  under a binary collation), \<open>IS NULL\<close> and the comparisons on integers as usual;
  \<open>LIKE\<close> is not used by the services and is not interpreted. A \<open>SELECT\<close> without
  \<open>ORDER BY\<close> returns rows in storage order, the order the rest of the development
  assumes. The lemmas show that the store operations the other theories use
  (\<open>update_from_block\<close>, \<open>event_count\<close>, \<open>mark_processed\<close>, \<open>unprocessed_page\<close>,
  \<open>get_user\<close>) are what executing these statements does.
\<close>

subsection \<open>Rows of the three tables\<close>

definition task_row :: "scan_task \<Rightarrow> sql_row" where
  "task_row t =
     [(''chain_id'', VNum (task_chain_id t)), (''address'', VStr (task_address t)),
      (''from_block'', VNum (task_from_block t)), (''event_type'', VStr (task_event_type t)),
      (''event_keccak'', VStr (task_event_keccak t))]"

definition event_row :: "event_data \<Rightarrow> sql_row" where
  "event_row e =
     [(''id'', VNum (int (ev_id e))), (''chain_id'', VNum (ev_chain_id e)), (''sender'', VStr (ev_sender e)),
      (''event_type'', VStr (ev_event_type e)), (''address'', VStr (ev_address e)),
      (''topic0'', VStr (ev_topic0 e)), (''topic1'', VStr (ev_topic1 e)), (''topic2'', VStr (ev_topic2 e)),
      (''topic3'', VStr (ev_topic3 e)), (''data'', VStr (ev_data e)), (''log_index'', VNum (ev_log_index e)),
      (''tx_hash'', VStr (ev_tx_hash e)), (''block_number'', VNum (ev_block_number e)),
      (''timestamp'', VNum (ev_timestamp e)), (''tx_index'', VNum (ev_tx_index e)),
      (''version'', VNum (ev_version e))]"

text \<open>The object \<open>syncEvents\<close> pushes onto \<open>eventData\<close> and hands to \<open>insertBatch\<close>: the
  columns in the order of the object literal, without \<open>id\<close> and \<open>version\<close>.\<close>

definition staged_row :: "event_data \<Rightarrow> sql_row" where
  "staged_row e =
     [(''chain_id'', VNum (ev_chain_id e)), (''sender'', VStr (ev_sender e)),
      (''event_type'', VStr (ev_event_type e)), (''address'', VStr (ev_address e)),
      (''topic0'', VStr (ev_topic0 e)), (''topic1'', VStr (ev_topic1 e)), (''topic2'', VStr (ev_topic2 e)),
      (''topic3'', VStr (ev_topic3 e)), (''data'', VStr (ev_data e)), (''log_index'', VNum (ev_log_index e)),
      (''tx_hash'', VStr (ev_tx_hash e)), (''block_number'', VNum (ev_block_number e)),
      (''timestamp'', VNum (ev_timestamp e)), (''tx_index'', VNum (ev_tx_index e))]"

definition user_row_sql :: "user_row \<Rightarrow> sql_row" where
  "user_row_sql u =
     [(''address'', VStr (u_address u)), (''total_staked'', VStr (total_staked u)),
      (''total_unstaked'', VStr (total_unstaked u)), (''current_staked'', VStr (current_staked u))]"

subsection \<open>The store's reading of a statement\<close>

definition sql_eq :: "sql_value \<Rightarrow> sql_value \<Rightarrow> bool" where
  "sql_eq a b \<longleftrightarrow> a \<noteq> VNull \<and> b \<noteq> VNull \<and> a = b"

fun num_cmp :: "(int \<Rightarrow> int \<Rightarrow> bool) \<Rightarrow> sql_value \<Rightarrow> sql_value \<Rightarrow> bool" where
  "num_cmp f (VNum a) (VNum b) = f a b"
| "num_cmp f _ _ = False"

text \<open>\<open>LIKE\<close> with the wildcards \<open>%\<close> (any run of characters) and \<open>_\<close> (one character);
  the escape character and case-folding collations are not modelled.\<close>

fun like_match :: "string \<Rightarrow> string \<Rightarrow> bool" where
  "like_match [] t = (t = [])"
| "like_match (c # p) [] = (c = CHR ''%'' \<and> like_match p [])"
| "like_match (c # p) (x # t) =
     (if c = CHR ''%'' then like_match p (x # t) \<or> like_match (c # p) t
      else (c = CHR ''_'' \<or> c = x) \<and> like_match p t)"

text \<open>The text MySQL compares with \<open>LIKE\<close>: a string, or a number in decimal.\<close>

fun sql_text :: "sql_value \<Rightarrow> string option" where
  "sql_text (VStr s) = Some s"
| "sql_text (VNum n) = Some (bigint_to_string n)"
| "sql_text _ = None"

definition op_holds :: "operator \<Rightarrow> sql_value \<Rightarrow> sql_value \<Rightarrow> bool" where
  "op_holds op a b =
     (case op of
        OpEq \<Rightarrow> sql_eq a b
      | OpNe \<Rightarrow> a \<noteq> VNull \<and> b \<noteq> VNull \<and> a \<noteq> b
      | OpGt \<Rightarrow> num_cmp (>) a b
      | OpLt \<Rightarrow> num_cmp (<) a b
      | OpGe \<Rightarrow> num_cmp (\<ge>) a b
      | OpLe \<Rightarrow> num_cmp (\<le>) a b
      | OpLike \<Rightarrow> (case (sql_text a, sql_text b) of (Some s, Some p) \<Rightarrow> like_match p s | _ \<Rightarrow> False)
      | OpIsNull \<Rightarrow> a = VNull
      | OpIsNotNull \<Rightarrow> a \<noteq> VNull)"

fun cond_holds :: "sql_row \<Rightarrow> string \<times> where_val \<Rightarrow> bool" where
  "cond_holds r (k, WNull) = (item_value r k = VNull)"
| "cond_holds r (k, WVal v) = sql_eq (item_value r k) v"
| "cond_holds r (k, WOps ops) = list_all (\<lambda>(op, v). op_holds op (item_value r k) v) ops"

definition where_holds :: "where_cond \<Rightarrow> sql_row \<Rightarrow> bool" where
  "where_holds w r \<longleftrightarrow> list_all (cond_holds r) w"

definition set_cols :: "sql_row \<Rightarrow> sql_row \<Rightarrow> sql_row" where
  "set_cols data r = map (\<lambda>(k, v). (k, case map_of data k of Some v' \<Rightarrow> v' | None \<Rightarrow> v)) r"

definition exec_update :: "sql_row \<Rightarrow> where_cond \<Rightarrow> sql_row list \<Rightarrow> sql_row list" where
  "exec_update data w rows = map (\<lambda>r. if where_holds w r then set_cols data r else r) rows"

definition exec_count :: "where_cond \<Rightarrow> sql_row list \<Rightarrow> nat" where
  "exec_count w rows = length (filter (where_holds w) rows)"

definition exec_select :: "where_cond \<Rightarrow> (int \<times> int option) option \<Rightarrow> sql_row list \<Rightarrow> sql_row list" where
  "exec_select w lim rows =
     (case lim of None \<Rightarrow> filter (where_holds w) rows
      | Some (cnt, off) \<Rightarrow> take (nat cnt) (drop (nat (case off of None \<Rightarrow> 0 | Some o' \<Rightarrow> o')) (filter (where_holds w) rows)))"

subsection \<open>The statements the services issue\<close>

text \<open>\<open>queryBuilder.count('event_data', {chain_id, event_type, tx_hash})\<close>\<close>

definition exists_where :: "chain_id \<Rightarrow> string \<Rightarrow> hexstr \<Rightarrow> where_cond" where
  "exists_where c et tx = [(''chain_id'', WVal (VNum c)), (''event_type'', WVal (VStr et)), (''tx_hash'', WVal (VStr tx))]"

text \<open>\<open>queryBuilder.update('scan_tasks', {from_block: toBlock}, {chain_id: chainId})\<close>\<close>

definition watermark_set :: "block_num \<Rightarrow> sql_row" where
  "watermark_set b = [(''from_block'', VNum b)]"

definition chain_where :: "chain_id \<Rightarrow> where_cond" where
  "chain_where c = [(''chain_id'', WVal (VNum c))]"

text \<open>\<open>queryBuilder.update('event_data', {version: 1}, {id: event.id})\<close>\<close>

definition mark_set :: sql_row where
  "mark_set = [(''version'', VNum 1)]"

definition id_where :: "nat \<Rightarrow> where_cond" where
  "id_where i = [(''id'', WVal (VNum (int i)))]"

text \<open>\<open>queryBuilder.select({table: 'event_data', where: {version: 0}, limit: {count: 10}})\<close>\<close>

definition page_query :: query_options where
  "page_query =
     \<lparr>q_table = ''event_data'', q_fields = None, q_where = [(''version'', WVal (VNum 0))], q_order = None,
      q_group = None, q_limit = Some (10, None), q_joins = []\<rparr>"

text \<open>\<open>getUser\<close>: \<open>select({table: 'user', where: {address: wallet}, fields: [...], limit: {count: 1}})\<close>\<close>

definition user_query :: "address \<Rightarrow> query_options" where
  "user_query wallet =
     \<lparr>q_table = ''user'', q_fields = Some (Many [''id'', ''total_staked'', ''current_staked'', ''total_unstaked'']),
      q_where = [(''address'', WVal (VStr wallet))], q_order = None, q_group = None,
      q_limit = Some (1, None), q_joins = []\<rparr>"

text \<open>The write \<open>handleStaked\<close> and \<open>handleUnStaked\<close> issue:
  \<open>update('user', {...}, {address: wallet})\<close> on a known wallet, \<open>insert('user', {...})\<close>
  otherwise; a stored amount that is not a BigInt literal throws before any write.\<close>

datatype ledger_stmt = LUpdate sql_row where_cond | LInsert sql_row

definition addr_where :: "address \<Rightarrow> where_cond" where
  "addr_where wallet = [(''address'', WVal (VStr wallet))]"

definition staked_stmt :: "address \<Rightarrow> int \<Rightarrow> user_row list \<Rightarrow> js_error + ledger_stmt" where
  "staked_stmt wallet amount us =
     (case get_user wallet us of
        Some u \<Rightarrow>
          (case (string_to_bigint (total_staked u), string_to_bigint (current_staked u)) of
             (Some ts, Some cs) \<Rightarrow>
               Inr (LUpdate [(''total_staked'', VStr (bigint_to_string (ts + amount))),
                             (''current_staked'', VStr (bigint_to_string (cs + amount)))] (addr_where wallet))
           | _ \<Rightarrow> Inl BigIntSyntaxError)
      | None \<Rightarrow>
          Inr (LInsert [(''address'', VStr wallet), (''total_staked'', VStr (bigint_to_string amount)),
                        (''total_unstaked'', VStr ''0''), (''current_staked'', VStr (bigint_to_string amount))]))"

definition unstaked_stmt :: "address \<Rightarrow> int \<Rightarrow> user_row list \<Rightarrow> js_error + ledger_stmt" where
  "unstaked_stmt wallet amount us =
     (case get_user wallet us of
        Some u \<Rightarrow>
          (case (string_to_bigint (total_unstaked u), string_to_bigint (current_staked u)) of
             (Some tu, Some cs) \<Rightarrow>
               Inr (LUpdate [(''total_unstaked'', VStr (bigint_to_string (tu + amount))),
                             (''current_staked'', VStr (bigint_to_string (cs - amount)))] (addr_where wallet))
           | _ \<Rightarrow> Inl BigIntSyntaxError)
      | None \<Rightarrow>
          Inr (LInsert [(''address'', VStr wallet), (''total_staked'', VStr ''0''),
                        (''total_unstaked'', VStr (bigint_to_string amount)), (''current_staked'', VStr ''0'')]))"

definition exec_ledger :: "ledger_stmt \<Rightarrow> sql_row list \<Rightarrow> sql_row list" where
  "exec_ledger st rows = (case st of LUpdate data w \<Rightarrow> exec_update data w rows | LInsert r \<Rightarrow> rows @ [r])"

subsection \<open>Lemmas\<close>

lemma where_holds_simps [simp]:
  "where_holds [] r"
  "where_holds (kv # w) r \<longleftrightarrow> cond_holds r kv \<and> where_holds w r"
  by (simp_all add: where_holds_def)

lemma sql_eq_simps [simp]:
  "sql_eq (VNum a) (VNum b) \<longleftrightarrow> a = b" "sql_eq (VStr x) (VStr y) \<longleftrightarrow> x = y"
  by (simp_all add: sql_eq_def)

lemma task_row_cols [simp]:
  "item_value (task_row t) ''chain_id'' = VNum (task_chain_id t)"
  by (simp add: task_row_def item_value_def)

lemma event_row_cols [simp]:
  "item_value (event_row e) ''id'' = VNum (int (ev_id e))"
  "item_value (event_row e) ''chain_id'' = VNum (ev_chain_id e)"
  "item_value (event_row e) ''event_type'' = VStr (ev_event_type e)"
  "item_value (event_row e) ''tx_hash'' = VStr (ev_tx_hash e)"
  "item_value (event_row e) ''version'' = VNum (ev_version e)"
  by (simp_all add: event_row_def item_value_def)

lemma user_row_cols [simp]:
  "item_value (user_row_sql u) ''address'' = VStr (u_address u)"
  by (simp add: user_row_sql_def item_value_def)

lemma exec_update_map:
  "(\<And>x. where_holds w (f x) \<longleftrightarrow> P x) \<Longrightarrow> (\<And>x. P x \<Longrightarrow> set_cols data (f x) = f (g x)) \<Longrightarrow>
   exec_update data w (map f xs) = map f (update_where P g xs)"
  by (simp add: exec_update_def update_where_def)

lemma exec_count_map:
  "(\<And>x. where_holds w (f x) \<longleftrightarrow> P x) \<Longrightarrow> exec_count w (map f xs) = length (filter P xs)"
  by (simp add: exec_count_def comp_def)

lemma where_rows:
  "where_holds (chain_where c) (task_row t) \<longleftrightarrow> task_chain_id t = c"
  "where_holds (exists_where c et tx) (event_row e) \<longleftrightarrow> ev_chain_id e = c \<and> ev_event_type e = et \<and> ev_tx_hash e = tx"
  "where_holds (id_where i) (event_row e) \<longleftrightarrow> ev_id e = i"
  "where_holds (q_where page_query) (event_row e) \<longleftrightarrow> unprocessed e"
  "where_holds (q_where (user_query wallet)) (user_row_sql u) \<longleftrightarrow> u_address u = wallet"
  by (simp_all add: chain_where_def exists_where_def id_where_def page_query_def user_query_def unprocessed_def)

lemma set_cols_rows:
  "set_cols (watermark_set b) (task_row t) = task_row (t\<lparr>task_from_block := b\<rparr>)"
  "set_cols mark_set (event_row e) = event_row (e\<lparr>ev_version := 1\<rparr>)"
  by (simp_all add: set_cols_def task_row_def watermark_set_def event_row_def mark_set_def)

lemma update_from_block_sql:
  "map task_row (scan_tasks (update_from_block c b s)) = exec_update (watermark_set b) (chain_where c) (map task_row (scan_tasks s))"
  by (subst exec_update_map [where P = "\<lambda>t. task_chain_id t = c" and g = "\<lambda>t. t\<lparr>task_from_block := b\<rparr>"])
     (simp_all add: where_rows set_cols_rows update_from_block_def)

lemma event_count_sql:
  "event_count st c et tx = exec_count (exists_where c et tx) (map event_row (event_rows st))"
  by (subst exec_count_map [where P = "\<lambda>e. ev_chain_id e = c \<and> ev_event_type e = et \<and> ev_tx_hash e = tx"])
     (simp_all only: where_rows event_count_def)

lemma mark_processed_sql:
  "map event_row (mark_processed i rows) = exec_update mark_set (id_where i) (map event_row rows)"
  by (subst exec_update_map [where P = "\<lambda>e. ev_id e = i" and g = "\<lambda>e. e\<lparr>ev_version := 1\<rparr>"])
     (simp_all only: where_rows set_cols_rows mark_processed_def)

lemma unprocessed_page_sql:
  "map event_row (unprocessed_page s) = exec_select (q_where page_query) (q_limit page_query) (map event_row (event_rows s))"
proof -
  have "filter (where_holds (q_where page_query)) (map event_row (event_rows s)) = map event_row (filter unprocessed (event_rows s))"
    by (simp only: filter_map comp_def where_rows)
  then show ?thesis
    by (simp add: exec_select_def unprocessed_page_def parse_page_size_def take_map page_query_def [of])
qed

lemma find_take_filter: "(case find P xs of None \<Rightarrow> [] | Some u \<Rightarrow> [u]) = take 1 (filter P xs)"
  by (induction xs) simp_all

lemma get_user_sql:
  "map user_row_sql (case get_user wallet us of None \<Rightarrow> [] | Some u \<Rightarrow> [u]) =
   exec_select (q_where (user_query wallet)) (q_limit (user_query wallet)) (map user_row_sql us)"
proof -
  have "filter (where_holds (q_where (user_query wallet))) (map user_row_sql us) = map user_row_sql (filter (\<lambda>u. u_address u = wallet) us)"
    by (simp only: filter_map comp_def where_rows)
  moreover have "q_limit (user_query wallet) = Some (1, None)" by (simp add: user_query_def)
  ultimately show ?thesis
    by (simp add: exec_select_def get_user_def find_take_filter take_map)
qed


text \<open>C11: the scanner's statements. Moving a chain's watermark
  (\<open>update_from_block\<close>) is what the store does with the \<open>UPDATE\<close> that \<open>syncEvents\<close>
  issues, and the existence check \<open>event_count\<close> is the store's answer to its
  \<open>SELECT COUNT(*)\<close>; the statements' texts and bound values are the ones shown.\<close>

theorem scan_statements_refine:
  "map task_row (scan_tasks (update_from_block c b s)) =
     exec_update (watermark_set b) (chain_where c) (map task_row (scan_tasks s)) \<and>
   update_sql ''scan_tasks'' (watermark_set b) (chain_where c) =
     (''UPDATE scan_tasks SET from_block = ? WHERE chain_id = ?'', [VNum b, VNum c]) \<and>
   event_count st c et tx = exec_count (exists_where c et tx) (map event_row (event_rows st)) \<and>
   count_sql ''event_data'' (exists_where c et tx) =
     (''SELECT COUNT(*) as total FROM event_data WHERE chain_id = ? AND event_type = ? AND tx_hash = ?'',
      [VNum c, VStr et, VStr tx])"
  by (simp add: update_from_block_sql event_count_sql update_sql_def count_sql_def build_where_def
      watermark_set_def chain_where_def exists_where_def)

text \<open>C12: the parser's statements. Marking a record processed (\<open>mark_processed\<close>), the
  page of unprocessed records (\<open>unprocessed_page\<close>) and the wallet lookup (\<open>get_user\<close>)
  are what the store does with the \<open>UPDATE\<close> and the two \<open>SELECT\<close>s \<open>ParseService\<close>
  issues, whose texts and bound values are the ones shown.\<close>

theorem parse_statements_refine:
  "map event_row (mark_processed i rows) = exec_update mark_set (id_where i) (map event_row rows) \<and>
   update_sql ''event_data'' mark_set (id_where i) =
     (''UPDATE event_data SET version = ? WHERE id = ?'', [VNum 1, VNum (int i)]) \<and>
   map event_row (unprocessed_page s) =
     exec_select (q_where page_query) (q_limit page_query) (map event_row (event_rows s)) \<and>
   select_sql page_query = (''SELECT * FROM event_data WHERE version = ? LIMIT 10'', [VNum 0]) \<and>
   map user_row_sql (case get_user wallet us of None \<Rightarrow> [] | Some u \<Rightarrow> [u]) =
     exec_select (q_where (user_query wallet)) (q_limit (user_query wallet)) (map user_row_sql us) \<and>
   select_sql (user_query wallet) =
     (''SELECT id, total_staked, current_staked, total_unstaked FROM user WHERE address = ? LIMIT 1'', [VStr wallet])"
  by (simp add: mark_processed_sql unprocessed_page_sql get_user_sql update_sql_def select_sql_def
      build_where_def build_join_def build_group_by_def build_order_by_def build_limit_def
      bigint_to_string_def show_radix_eval digit_chars_def mark_set_def id_where_def page_query_def user_query_def)


lemma set_cols_user:
  "set_cols [(''total_staked'', VStr a), (''current_staked'', VStr b)] (user_row_sql u) =
     user_row_sql (u\<lparr>total_staked := a, current_staked := b\<rparr>)"
  "set_cols [(''total_unstaked'', VStr a), (''current_staked'', VStr b)] (user_row_sql u) =
     user_row_sql (u\<lparr>total_unstaked := a, current_staked := b\<rparr>)"
  by (simp_all add: set_cols_def user_row_sql_def)

lemma addr_where_row: "where_holds (addr_where wallet) (user_row_sql u) \<longleftrightarrow> u_address u = wallet"
  by (simp add: addr_where_def)

lemma handle_staked_sql:
  "map_sum id (map user_row_sql) (handle_staked wallet amount us) =
   map_sum id (\<lambda>st. exec_ledger st (map user_row_sql us)) (staked_stmt wallet amount us)"
proof (cases "get_user wallet us")
  case None
  then show ?thesis by (simp add: handle_staked_def staked_stmt_def exec_ledger_def user_row_sql_def)
next
  case (Some u)
  show ?thesis
  proof (cases "string_to_bigint (total_staked u)"; cases "string_to_bigint (current_staked u)")
    fix ts cs assume ts: "string_to_bigint (total_staked u) = Some ts" and cs: "string_to_bigint (current_staked u) = Some cs"
    have "exec_update [(''total_staked'', VStr (bigint_to_string (ts + amount))),
            (''current_staked'', VStr (bigint_to_string (cs + amount)))] (addr_where wallet) (map user_row_sql us) =
          map user_row_sql (update_where (\<lambda>r. u_address r = wallet)
            (\<lambda>r. r\<lparr>total_staked := bigint_to_string (ts + amount), current_staked := bigint_to_string (cs + amount)\<rparr>) us)"
      by (rule exec_update_map) (simp_all only: addr_where_row set_cols_user)
    then show ?thesis using Some ts cs by (simp add: handle_staked_def staked_stmt_def exec_ledger_def)
  qed (simp_all add: Some handle_staked_def staked_stmt_def)
qed

lemma handle_unstaked_sql:
  "map_sum id (map user_row_sql) (handle_unstaked wallet amount us) =
   map_sum id (\<lambda>st. exec_ledger st (map user_row_sql us)) (unstaked_stmt wallet amount us)"
proof (cases "get_user wallet us")
  case None
  then show ?thesis by (simp add: handle_unstaked_def unstaked_stmt_def exec_ledger_def user_row_sql_def)
next
  case (Some u)
  show ?thesis
  proof (cases "string_to_bigint (total_unstaked u)"; cases "string_to_bigint (current_staked u)")
    fix tu cs assume tu: "string_to_bigint (total_unstaked u) = Some tu" and cs: "string_to_bigint (current_staked u) = Some cs"
    have "exec_update [(''total_unstaked'', VStr (bigint_to_string (tu + amount))),
            (''current_staked'', VStr (bigint_to_string (cs - amount)))] (addr_where wallet) (map user_row_sql us) =
          map user_row_sql (update_where (\<lambda>r. u_address r = wallet)
            (\<lambda>r. r\<lparr>total_unstaked := bigint_to_string (tu + amount), current_staked := bigint_to_string (cs - amount)\<rparr>) us)"
      by (rule exec_update_map) (simp_all only: addr_where_row set_cols_user)
    then show ?thesis using Some tu cs by (simp add: handle_unstaked_def unstaked_stmt_def exec_ledger_def)
  qed (simp_all add: Some handle_unstaked_def unstaked_stmt_def)
qed


text \<open>C13: the ledger writes. \<open>handleStaked\<close> and \<open>handleUnStaked\<close> as modelled on the
  \<open>user\<close> table are what the store does with the statement each issues: an \<open>UPDATE\<close>
  of the wallet's rows by address on a known wallet, an \<open>INSERT\<close> of a fresh row
  otherwise, and no statement when a stored amount does not parse; the texts are the
  ones shown.\<close>

theorem ledger_statements_refine:
  "map_sum id (map user_row_sql) (handle_staked wallet amount us) =
     map_sum id (\<lambda>st. exec_ledger st (map user_row_sql us)) (staked_stmt wallet amount us) \<and>
   map_sum id (map user_row_sql) (handle_unstaked wallet amount us) =
     map_sum id (\<lambda>st. exec_ledger st (map user_row_sql us)) (unstaked_stmt wallet amount us) \<and>
   update_sql ''user'' [(''total_staked'', VStr a), (''current_staked'', VStr b)] (addr_where wallet) =
     (''UPDATE user SET total_staked = ?, current_staked = ? WHERE address = ?'', [VStr a, VStr b, VStr wallet]) \<and>
   fst (insert_sql ''user'' [(''address'', x1), (''total_staked'', x2), (''total_unstaked'', x3), (''current_staked'', x4)]) =
     ''INSERT INTO user (address, total_staked, total_unstaked, current_staked) VALUES (?, ?, ?, ?)''"
  by (simp add: handle_staked_sql handle_unstaked_sql update_sql_def insert_sql_def build_where_def addr_where_def)

text \<open>C35: the size of a batched insert. Every \<open>INSERT\<close> that \<open>insertBatch\<close> issues for the
  events of a scan binds at most 14000 values: a chunk holds at most 1000 events of 14
  columns each. This is below MySQL's limit of 65535 placeholders in one prepared
  statement, however many events a cycle stages.\<close>

theorem event_insert_bounds:
  assumes "s \<in> set (insert_batch_sql ''event_data'' (map staged_row evs))"
  shows "length (snd s) \<le> 14000"
proof -
  obtain b where s: "s = batch_stmt ''event_data'' b" and ne: "b \<noteq> []" and len: "length b \<le> batch_size"
    and sub: "set b \<subseteq> set (map staged_row evs)"
    using insert_batch_sql_stmt [OF assms] by blast
  have "length (hd b) = 14" using sub hd_in_set [OF ne] by (auto simp: staged_row_def)
  then show ?thesis using len by (simp add: s batch_stmt_values_length batch_size_def)
qed

lemma event_insert_bounds_witness:
  "insert_batch_sql ''event_data'' (map staged_row [demo_staged]) = [batch_stmt ''event_data'' [staged_row demo_staged]] \<and>
   length (snd (batch_stmt ''event_data'' [staged_row demo_staged])) \<le> 14000"
proof -
  have eq: "insert_batch_sql ''event_data'' (map staged_row [demo_staged]) = [batch_stmt ''event_data'' [staged_row demo_staged]]"
    by (simp add: insert_batch_sql_def batch_size_def batch_slices.simps)
  then show ?thesis
    using event_insert_bounds [of "batch_stmt ''event_data'' [staged_row demo_staged]" "[demo_staged]"] by simp
qed

end
