(* ===== verification/Rest.thy ===== *)
theory Rest
  imports Queries
begin

text \<open>
  The REST controllers. \<open>UserController.getUser\<close> (\<open>src/src/controllers/user.ts\<close>) and
  \<open>StakeController\<close> (\<open>src/dist/controllers/stake.js\<close>; \<open>getStakes\<close> is in
  \<open>SqlBuilder\<close>) only read: each renders one \<open>SELECT\<close> and shapes its rows. The routing
  and the HTTP layer (\<open>tsoa\<close>, \<open>express\<close>) are not modelled.
\<close>

datatype rest_error = UserNotFound

text \<open>The \<open>fields\<close> of a \<open>SELECT\<close>, applied to a row.\<close>

definition project :: "string list \<Rightarrow> sql_row \<Rightarrow> sql_row" where
  "project cols r = map (\<lambda>k. (k, item_value r k)) cols"

text \<open>The query of \<open>UserController.getUser\<close>.\<close>

definition user_ctl_query :: "address \<Rightarrow> query_options" where
  "user_ctl_query a =
     \<lparr>q_table = ''user'', q_fields = Some (Many [''address'', ''total_staked'', ''total_unstaked'', ''current_staked'']),
      q_where = [(''address'', WVal (VStr a))], q_order = None, q_group = None, q_limit = None, q_joins = []\<rparr>"

text \<open>\<open>UserController.getUser\<close> (\<open>src/src/controllers/user.ts\<close>): select the wallet's rows,
  throw \<open>User not found\<close> when there is none, else return the first.\<close>

definition get_user_ctl :: "address \<Rightarrow> sql_row list \<Rightarrow> rest_error + sql_row" where
  "get_user_ctl a rows =
     (let q = user_ctl_query a;
          res = map (project (case q_fields q of Some f \<Rightarrow> sol_items f | None \<Rightarrow> []))
                  (exec_select (q_where q) (q_limit q) rows)
      in if res = [] then Inl UserNotFound else Inr (hd res))"

text \<open>The route \<open>GET /user\<close> of \<open>src/src/routes/index.ts\<close>, mounted under \<open>/api\<close>: the
  address is \<open>(req.query.address as string) || ''\<close>, and the answer is \<open>res.json\<close> of
  \<open>getUser\<close>'s row; a thrown error rejects the handler, and no JSON is sent.\<close>

definition user_route :: "(string \<Rightarrow> string option) \<Rightarrow> sql_row list \<Rightarrow> rest_error + sql_row" where
  "user_route query rows = get_user_ctl (case query ''address'' of Some a \<Rightarrow> a | None \<Rightarrow> []) rows"

text \<open>\<open>StakeController.getTotalStaked\<close> (\<open>src/dist/controllers/stake.js\<close>, lines 43 to 54):
  \<open>SELECT SUM(amount) as total FROM stakes WHERE amount > ? GROUP BY address\<close>, and the
  answer \<open>rows[0]?.total || '0'\<close>.\<close>

definition total_staked_query :: query_options where
  "total_staked_query =
     \<lparr>q_table = ''stakes'', q_fields = Some (One ''SUM(amount) as total''),
      q_where = [(''amount'', WOps [(OpGt, VNum 0)])], q_order = None, q_group = Some (One ''address''),
      q_limit = None, q_joins = []\<rparr>"

text \<open>A row of \<open>stakes\<close>: an address and an integer amount.\<close>

definition stake_row :: "address \<times> int \<Rightarrow> sql_row" where
  "stake_row r = [(''address'', VStr (fst r)), (''amount'', VNum (snd r))]"

text \<open>The store's reading of \<open>SUM(amount) ... GROUP BY address\<close>: one sum per address, the
  groups in order of first appearance (MySQL does not fix their order; the lemmas below
  hold for every group).\<close>

definition group_sums :: "(address \<times> int) list \<Rightarrow> int list" where
  "group_sums xs = map (\<lambda>a. sum_list (map snd (filter (\<lambda>r. fst r = a) xs))) (js_set_list (map fst xs))"

text \<open>The controller's answer.\<close>

definition total_staked_response :: "(address \<times> int) list \<Rightarrow> string" where
  "total_staked_response rs =
     (let sel = filter (\<lambda>r. where_holds (q_where total_staked_query) (stake_row r)) rs
      in case group_sums sel of [] \<Rightarrow> ''0'' | g # _ \<Rightarrow> bigint_to_string g)"

text \<open>The total the endpoint's name promises: the sum of all positive stakes.\<close>

definition positive_total :: "(address \<times> int) list \<Rightarrow> int" where
  "positive_total rs = sum_list (map snd (filter (\<lambda>r. 0 < snd r) rs))"

subsection \<open>Lemmas\<close>

lemma stake_where: "where_holds (q_where total_staked_query) (stake_row r) \<longleftrightarrow> 0 < snd r"
  by (simp add: total_staked_query_def stake_row_def item_value_def op_holds_def)

lemma sum_list_point_out: "a \<notin> set ks \<Longrightarrow> sum_list (map (\<lambda>k. if k = a then v else 0) ks) = (0::int)"
  by (induction ks) auto

lemma sum_list_point:
  "distinct ks \<Longrightarrow> a \<in> set ks \<Longrightarrow> sum_list (map (\<lambda>k. if k = a then v else 0) ks) = (v::int)"
  by (induction ks) (auto simp: sum_list_point_out)

lemma sum_groups_keys:
  "distinct ks \<Longrightarrow> set (map fst xs) \<subseteq> set ks \<Longrightarrow>
   sum_list (map (\<lambda>a. sum_list (map snd (filter (\<lambda>r. fst r = a) xs))) ks) = sum_list (map (snd :: _ \<Rightarrow> int) xs)"
proof (induction xs)
  case Nil
  then show ?case by simp
next
  case (Cons x xs)
  have "sum_list (map (\<lambda>a. sum_list (map snd (filter (\<lambda>r. fst r = a) (x # xs)))) ks) =
        sum_list (map (\<lambda>a. (if a = fst x then snd x else 0) + sum_list (map snd (filter (\<lambda>r. fst r = a) xs))) ks)"
    by (rule arg_cong [where f = sum_list], rule map_cong) auto
  also have "\<dots> = sum_list (map (\<lambda>a. if a = fst x then snd x else 0) ks) +
                  sum_list (map (\<lambda>a. sum_list (map snd (filter (\<lambda>r. fst r = a) xs))) ks)"
    by (simp add: sum_list_addf)
  also have "\<dots> = snd x + sum_list (map snd xs)"
    using Cons by (simp add: sum_list_point)
  finally show ?case by simp
qed

lemma sum_group_sums: "sum_list (group_sums xs) = sum_list (map snd xs)"
  unfolding group_sums_def by (rule sum_groups_keys) simp_all

lemma sum_list_pos: "\<forall>x\<in>set xs. (0::int) < x \<Longrightarrow> xs \<noteq> [] \<Longrightarrow> 0 < sum_list xs"
  by (induction xs) (auto simp: add_pos_nonneg sum_list_nonneg less_imp_le)

lemma group_sums_pos: "\<forall>r\<in>set xs. 0 < snd r \<Longrightarrow> \<forall>g\<in>set (group_sums xs). 0 < g"
  by (auto simp: group_sums_def filter_empty_conv intro!: sum_list_pos) fastforce

lemma lt_sum_list: "\<forall>x\<in>set gs. (0::int) < x \<Longrightarrow> g \<in> set gs \<Longrightarrow> 2 \<le> length gs \<Longrightarrow> g < sum_list gs"
proof (induction gs)
  case Nil
  then show ?case by simp
next
  case (Cons x ys)
  have "0 < sum_list ys" using Cons.prems by (intro sum_list_pos) auto
  show ?case
  proof (cases "g = x")
    case True
    then show ?thesis using \<open>0 < sum_list ys\<close> by simp
  next
    case False
    then have g: "g \<in> set ys" using Cons.prems by simp
    show ?thesis
    proof (cases "2 \<le> length ys")
      case True
      then show ?thesis using Cons g by fastforce
    next
      case False
      obtain y ys' where ys: "ys = y # ys'" using g by (cases ys) auto
      then have "ys' = []" using False by (cases ys') simp_all
      then show ?thesis using Cons.prems g ys by simp
    qed
  qed
qed

lemma bigint_to_string_inj: "bigint_to_string a = bigint_to_string b \<Longrightarrow> a = b"
  by (metis option.inject string_to_bigint_bigint_to_string)

text \<open>C20: \<open>getTotalStaked\<close> reports one address's stake. Because of \<open>GROUP BY address\<close>,
  the result holds one sum per address and the controller returns the first; when two
  addresses hold positive stakes, every group's sum, and so the answer, is below the
  total of the positive stakes.\<close>

theorem total_staked_one_address:
  assumes "2 \<le> length (js_set_list (map fst (filter (\<lambda>r. 0 < snd r) rs)))"
  shows "(\<forall>g\<in>set (group_sums (filter (\<lambda>r. 0 < snd r) rs)). g < positive_total rs) \<and>
         total_staked_response rs \<noteq> bigint_to_string (positive_total rs)"
proof -
  let ?gs = "group_sums (filter (\<lambda>r. 0 < snd r) rs)"
  have pos: "\<forall>g\<in>set ?gs. 0 < g" by (rule group_sums_pos) simp
  have len: "2 \<le> length ?gs" using assms by (simp add: group_sums_def)
  have tot: "sum_list ?gs = positive_total rs" by (simp add: sum_group_sums positive_total_def)
  have lt: "\<forall>g\<in>set ?gs. g < positive_total rs" using lt_sum_list [OF pos _ len] tot by simp
  obtain g gs' where gs: "?gs = g # gs'" using len by (cases ?gs) auto
  have "total_staked_response rs = bigint_to_string g"
    using gs by (simp add: total_staked_response_def stake_where)
  moreover have "g < positive_total rs" using lt gs by simp
  ultimately show ?thesis using lt bigint_to_string_inj by fastforce
qed

lemma total_staked_one_address_witness:
  "total_staked_response [(''0xa'', 100), (''0xb'', 200)] = ''100'' \<and> positive_total [(''0xa'', 100), (''0xb'', 200)] = 300"
proof -
  have "(\<forall>g\<in>set (group_sums (filter (\<lambda>r. 0 < snd r) [(''0xa'', 100::int), (''0xb'', 200)])). g < positive_total [(''0xa'', 100), (''0xb'', 200)]) \<and>
        total_staked_response [(''0xa'', 100), (''0xb'', 200)] \<noteq> bigint_to_string (positive_total [(''0xa'', 100), (''0xb'', 200)])"
    by (rule total_staked_one_address) simp
  moreover have "total_staked_response [(''0xa'', 100), (''0xb'', 200)] = ''100''"
    by (simp add: total_staked_response_def stake_where group_sums_def bigint_to_string_def show_radix_eval digit_chars_def)
  ultimately show ?thesis by (simp add: positive_total_def)
qed

lemma find_filter_Cons: "filter P xs = u # rest \<Longrightarrow> find P xs = Some u"
  by (induction xs) (auto split: if_splits)

lemma project_user_row:
  "project [''address'', ''total_staked'', ''total_unstaked'', ''current_staked''] (user_row_sql u) = user_row_sql u"
  by (simp add: project_def user_row_sql_def item_value_def)

text \<open>C29: the user endpoint. On the \<open>user\<close> table, \<open>UserController.getUser\<close> returns the
  wallet's first row (the row \<open>ParseService.getUser\<close> finds) and throws
  \<open>User not found\<close> when the wallet has none; its query text is the one shown. The route
  \<open>GET /api/user\<close> without an \<open>address\<close> parameter looks up the empty address.\<close>

theorem get_user_ctl_spec:
  "get_user_ctl a (map user_row_sql us) =
     (case get_user a us of None \<Rightarrow> Inl UserNotFound | Some u \<Rightarrow> Inr (user_row_sql u)) \<and>
   user_route (\<lambda>_. None) (map user_row_sql us) =
     (case get_user [] us of None \<Rightarrow> Inl UserNotFound | Some u \<Rightarrow> Inr (user_row_sql u)) \<and>
   select_sql (user_ctl_query a) =
     (''SELECT address, total_staked, total_unstaked, current_staked FROM user WHERE address = ?'', [VStr a])"
proof -
  have ctl: "get_user_ctl b (map user_row_sql us) =
          (case get_user b us of None \<Rightarrow> Inl UserNotFound | Some u \<Rightarrow> Inr (user_row_sql u))" for b
  proof -
    have f: "filter (where_holds (q_where (user_ctl_query b))) (map user_row_sql us) =
             map user_row_sql (filter (\<lambda>u. u_address u = b) us)"
      by (simp add: filter_map comp_def user_ctl_query_def)
    show ?thesis
    proof (cases "filter (\<lambda>u. u_address u = b) us")
      case Nil
      then have "get_user b us = None" by (simp add: get_user_def find_None_iff filter_empty_conv)
      then show ?thesis using f Nil
        by (simp add: get_user_ctl_def exec_select_def user_ctl_query_def [of b])
    next
      case (Cons u rest)
      then have "get_user b us = Some u" by (simp add: get_user_def find_filter_Cons)
      then show ?thesis using f Cons
        by (simp add: get_user_ctl_def exec_select_def project_user_row user_ctl_query_def [of b])
    qed
  qed
  moreover have "select_sql (user_ctl_query a) =
     (''SELECT address, total_staked, total_unstaked, current_staked FROM user WHERE address = ?'', [VStr a])"
    by (simp add: select_sql_def user_ctl_query_def build_where_def build_join_def build_group_by_def
        build_order_by_def build_limit_def)
  ultimately show ?thesis by (simp add: user_route_def)
qed

end
