(* ===== verification/Logger.thy ===== *)
theory Logger
  imports Prelude
begin

text \<open>
  The logger of \<open>src/src/utils/logger.ts\<close> (compiled as \<open>src/dist/utils/logger.js\<close>).
  Each call \<open>logger.info(...)\<close>, \<open>warn\<close>, \<open>error\<close> or \<open>debug\<close> prints one coloured
  line on the console and appends the same line, uncoloured and with a newline, to the
  day's log file. The clock (\<open>new Date().toISOString()\<close>) and the stack of
  \<open>new Error()\<close> are inputs. The caller's line \<open>stack.split('\n')[4]\<close> is matched
  against the two regular expressions of \<open>formatMessage\<close>, modelled with the leftmost,
  greedy, backtracking semantics of JavaScript's \<open>String.prototype.match\<close>.
\<close>

datatype log_level = Info | Warn | Error | Debug

definition level_name :: "log_level \<Rightarrow> string" where
  "level_name l = (case l of Info \<Rightarrow> ''info'' | Warn \<Rightarrow> ''warn'' | Error \<Rightarrow> ''error'' | Debug \<Rightarrow> ''debug'')"

text \<open>The ANSI colour codes of \<open>COLORS\<close>.\<close>

definition esc :: char where
  "esc = CHR 0x1B"

definition color_reset :: string where "color_reset = esc # ''[0m''"
definition color_red :: string where "color_red = esc # ''[31m''"
definition color_yellow :: string where "color_yellow = esc # ''[33m''"
definition color_green :: string where "color_green = esc # ''[32m''"
definition color_blue :: string where "color_blue = esc # ''[34m''"

text \<open>\<open>getColor\<close>; its \<open>default\<close> branch is unreachable for a \<open>LogLevel\<close>.\<close>

definition get_color :: "log_level \<Rightarrow> string" where
  "get_color l = (case l of Info \<Rightarrow> color_green | Warn \<Rightarrow> color_yellow | Error \<Rightarrow> color_red | Debug \<Rightarrow> color_blue)"

text \<open>\<open>s.split('\n')\<close>.\<close>

fun split_on :: "char \<Rightarrow> string \<Rightarrow> string list" where
  "split_on d [] = [[]]"
| "split_on d (x # xs) =
     (if x = d then [] # split_on d xs
      else (case split_on d xs of [] \<Rightarrow> [[x]] | w # ws \<Rightarrow> (x # w) # ws))"

text \<open>\<open>new Error().stack?.split('\n')[4]\<close>: the frame of the caller of \<open>info\<close>,
  \<open>warn\<close>, \<open>error\<close> or \<open>debug\<close>; undefined when the stack is shorter.\<close>

definition stack_line :: "string option \<Rightarrow> string option" where
  "stack_line stack =
     (case stack of
        None \<Rightarrow> None
      | Some st \<Rightarrow> (let ls = split_on (CHR 0x0A) st in if 4 < length ls then Some (ls ! 4) else None))"

text \<open>The first candidate, in the order the regular-expression engine tries them, that
  yields a match.\<close>

fun first_some :: "('a \<Rightarrow> 'b option) \<Rightarrow> 'a list \<Rightarrow> 'b option" where
  "first_some f [] = None"
| "first_some f (x # xs) = (case f x of None \<Rightarrow> first_some f xs | Some y \<Rightarrow> Some y)"

text \<open>\<open>:(\\d+):(\\d+)\<close> at the start of a text. Each \<open>\\d+\<close> is greedy and is
  followed by a non-digit or the end, so the whole digit run is the only way it can
  match; the rest of the text is returned.\<close>

definition colon_digits :: "string \<Rightarrow> (string \<times> string \<times> string) option" where
  "colon_digits t =
     (case t of
        [] \<Rightarrow> None
      | c # t1 \<Rightarrow>
          if c \<noteq> CHR '':'' then None
          else
            (let d1 = takeWhile is_dec t1 in
             case drop (length d1) t1 of
               [] \<Rightarrow> None
             | c2 # t2 \<Rightarrow>
                 if c2 \<noteq> CHR '':'' \<or> d1 = [] then None
                 else (let d2 = takeWhile is_dec t2 in
                       if d2 = [] then None else Some (d1, d2, drop (length d2) t2))))"

text \<open>\<open>/at (.*) \\((.*):(\\d+):(\\d+)\\)/\<close> after its \<open>at \<close>: both \<open>(.*)\<close> are greedy,
  so the engine tries the longest first group first and, for it, the longest second one.
  The result is the match array: the whole match, then the groups.\<close>

definition named_tail :: "string \<Rightarrow> string list option" where
  "named_tail r =
     first_some (\<lambda>k.
       if take 2 (drop k r) \<noteq> '' ('' then None
       else
         (let r' = drop (k + 2) r in
          first_some (\<lambda>k'.
            case colon_digits (drop k' r') of
              None \<Rightarrow> None
            | Some (d1, d2, rest) \<Rightarrow>
                if take 1 rest \<noteq> '')'' then None
                else Some [''at '' @ take k r @ '' ('' @ take k' r' @ '':'' @ d1 @ '':'' @ d2 @ '')'',
                           take k r, take k' r', d1, d2])
          (rev [0..<Suc (length r')])))
     (rev [0..<Suc (length r)])"

text \<open>\<open>/at (.*):(\\d+):(\\d+)/\<close> after its \<open>at \<close>.\<close>

definition bare_tail :: "string \<Rightarrow> string list option" where
  "bare_tail r =
     first_some (\<lambda>k.
       case colon_digits (drop k r) of
         None \<Rightarrow> None
       | Some (d1, d2, _) \<Rightarrow> Some [''at '' @ take k r @ '':'' @ d1 @ '':'' @ d2, take k r, d1, d2])
     (rev [0..<Suc (length r)])"

text \<open>\<open>s.match(re)\<close> for a pattern starting with \<open>at \<close>: the leftmost start that matches.\<close>

definition regex_match :: "(string \<Rightarrow> string list option) \<Rightarrow> string \<Rightarrow> string list option" where
  "regex_match tail s =
     first_some (\<lambda>i. if take 3 (drop i s) = ''at '' then tail (drop (i + 3) s) else None) [0..<length s]"

text \<open>\<open>stack?.match(named) || stack?.match(bare)\<close>: \<open>null\<close> and \<open>undefined\<close> are \<open>None\<close>.\<close>

definition frame_match :: "string option \<Rightarrow> string list option" where
  "frame_match line =
     (case line of
        None \<Rightarrow> None
      | Some s \<Rightarrow> (case regex_match named_tail s of Some m \<Rightarrow> Some m | None \<Rightarrow> regex_match bare_tail s))"

text \<open>\<open>callerInfo?.[i]\<close>.\<close>

definition match_group :: "string list option \<Rightarrow> nat \<Rightarrow> string option" where
  "match_group m i = (case m of None \<Rightarrow> None | Some gs \<Rightarrow> if i < length gs then Some (gs ! i) else None)"

text \<open>\<open>x || d\<close> on a string that may be undefined: undefined and \<open>''\<close> give \<open>d\<close>.\<close>

definition str_or :: "string option \<Rightarrow> string \<Rightarrow> string" where
  "str_or x d = (case x of Some s \<Rightarrow> if s = [] then d else s | None \<Rightarrow> d)"

text \<open>\<open>path.basename\<close> on POSIX paths: trailing separators dropped, last component kept.\<close>

definition basename :: "string \<Rightarrow> string" where
  "basename p =
     (let q = rev (dropWhile (\<lambda>c. c = CHR ''/'') (rev p)) in rev (takeWhile (\<lambda>c. c \<noteq> CHR ''/'') (rev q)))"

definition format_message :: "string \<Rightarrow> string option \<Rightarrow> log_level \<Rightarrow> string" where
  "format_message ts stack lvl =
     (let ci = frame_match (stack_line stack);
          function_name = str_or (match_group ci 1) ''anonymous'';
          full_file_path = str_or (match_group ci 2) ''unknown'';
          file_name = basename full_file_path;
          line_number = str_or (match_group ci 3) ''unknown''
      in ''['' @ ts @ ''] ['' @ file_name @ '':'' @ line_number @ ''] ['' @ function_name @ ''] ['' @
         js_upper (level_name lvl) @ '']'')"

text \<open>What the logger has written: the console lines and the log file's text.\<close>

record logger_state =
  console_out :: "string list"
  log_file :: string

text \<open>\<open>log(level, ...args)\<close>, reached from \<open>info\<close>, \<open>warn\<close>, \<open>error\<close> and \<open>debug\<close>.\<close>

definition log_call :: "log_level \<Rightarrow> string \<Rightarrow> string option \<Rightarrow> string list \<Rightarrow> logger_state \<Rightarrow> logger_state" where
  "log_call lvl ts fr args st =
     (let color = get_color lvl;
          message = format_message ts fr lvl;
          log_text = message @ '' '' @ js_join '' '' args
      in st\<lparr>console_out := console_out st @ [color @ log_text @ color_reset],
            log_file := log_file st @ log_text @ ''\<newline>''\<rparr>)"

text \<open>A sequence of calls, in the order the program makes them.\<close>

definition log_calls :: "(log_level \<times> string \<times> string option \<times> string list) list \<Rightarrow> logger_state \<Rightarrow> logger_state" where
  "log_calls cs st = fold (\<lambda>(lvl, ts, fr, args). log_call lvl ts fr args) cs st"

text \<open>A console line with its colour code and reset removed.\<close>

definition uncolor :: "string \<Rightarrow> string" where
  "uncolor l = take (length l - 9) (drop 5 l)"

lemma first_some_None: "\<forall>x\<in>set xs. f x = None \<Longrightarrow> first_some f xs = None"
  by (induction xs) auto

lemma first_some_at: "\<forall>x\<in>set xs. f x = None \<Longrightarrow> f y = Some z \<Longrightarrow> first_some f (xs @ y # ys) = Some z"
  by (induction xs) auto

lemma colon_digits_other: "c \<noteq> CHR '':'' \<Longrightarrow> colon_digits (c # t) = None"
  by (simp add: colon_digits_def)

lemma colon_digits_tail: "list_all is_dec c \<Longrightarrow> colon_digits (CHR '':'' # c) = None"
  by (simp add: colon_digits_def Let_def takeWhile_all_list)

lemma colon_digits_pair:
  "list_all is_dec l \<Longrightarrow> list_all is_dec c \<Longrightarrow> l \<noteq> [] \<Longrightarrow> c \<noteq> [] \<Longrightarrow>
   colon_digits (CHR '':'' # l @ CHR '':'' # c) = Some (l, c, [])"
proof -
  assume a: "list_all is_dec l" "list_all is_dec c" "l \<noteq> []" "c \<noteq> []"
  have "\<not> is_dec CHR '':''" by (simp add: is_dec_def)
  then have t1: "takeWhile is_dec (l @ CHR '':'' # c) = l" using a(1) by (simp add: takeWhile_all_dec)
  have t2: "takeWhile is_dec c = c" using a(2) by (rule takeWhile_all_list)
  show ?thesis using a t1 t2 by (simp add: colon_digits_def Let_def del: takeWhile_eq_all_conv)
qed

lemma colon_digits_digits_app: "list_all is_dec t \<Longrightarrow> t \<noteq> [] \<Longrightarrow> colon_digits (t @ u) = None"
  by (cases t) (auto simp: colon_digits_other is_dec_def)

lemma colon_digits_digits: "list_all is_dec t \<Longrightarrow> colon_digits t = None"
  using colon_digits_digits_app [of t "[]"] by (cases t) (auto simp: colon_digits_def)

lemma colon_digits_suffix:
  assumes "list_all is_dec l" and "list_all is_dec c"
  shows "colon_digits (drop j (l @ CHR '':'' # c)) = None"
proof (cases "j < length l")
  case True
  then have "drop j (l @ CHR '':'' # c) = drop j l @ CHR '':'' # c" by simp
  moreover have "list_all is_dec (drop j l)" "drop j l \<noteq> []"
    using assms(1) True by (auto simp: list_all_iff dest: in_set_dropD)
  ultimately show ?thesis by (simp add: colon_digits_digits_app)
next
  case False
  show ?thesis
  proof (cases "j = length l")
    case True
    then show ?thesis using assms(2) by (simp add: colon_digits_tail)
  next
    case False
    with \<open>\<not> j < length l\<close> have "drop j (l @ CHR '':'' # c) = drop (j - Suc (length l)) c"
      by (intro drop_past) simp
    moreover have "list_all is_dec (drop (j - Suc (length l)) c)"
      using assms(2) by (auto simp: list_all_iff dest: in_set_dropD)
    ultimately show ?thesis by (simp add: colon_digits_digits)
  qed
qed

lemma bare_tail_frame:
  assumes "list_all is_dec l" "list_all is_dec c" "l \<noteq> []" "c \<noteq> []"
  shows "bare_tail (p @ CHR '':'' # l @ CHR '':'' # c) =
           Some [''at '' @ p @ '':'' @ l @ '':'' @ c, p, l, c]"
proof -
  define r where "r = p @ CHR '':'' # l @ CHR '':'' # c"
  define f where "f = (\<lambda>k. case colon_digits (drop k r) of
         None \<Rightarrow> None
       | Some (d1, d2, _) \<Rightarrow> Some [''at '' @ take k r @ '':'' @ d1 @ '':'' @ d2, take k r, d1, d2])"
  have split: "rev [0..<Suc (length r)] = rev [Suc (length p)..<Suc (length r)] @ length p # rev [0..<length p]"
    by (rule rev_upt_split) (simp add: r_def)
  have later: "\<forall>k\<in>set (rev [Suc (length p)..<Suc (length r)]). f k = None"
  proof
    fix k assume "k \<in> set (rev [Suc (length p)..<Suc (length r)])"
    then have k: "Suc (length p) \<le> k" by (simp only: set_rev set_upt atLeastLessThan_iff)
    then have "drop k r = drop (k - Suc (length p)) (l @ CHR '':'' # c)"
      unfolding r_def by (rule drop_past)
    then have "colon_digits (drop k r) = None"
      using colon_digits_suffix [OF assms(1,2), of "k - Suc (length p)"] by (simp only:)
    then show "f k = None" by (simp add: f_def)
  qed
  have here: "f (length p) = Some [''at '' @ p @ '':'' @ l @ '':'' @ c, p, l, c]"
    using colon_digits_pair [OF assms] by (simp add: f_def r_def)
  have "bare_tail r = first_some f (rev [0..<Suc (length r)])"
    by (simp only: bare_tail_def f_def)
  also have "\<dots> = Some [''at '' @ p @ '':'' @ l @ '':'' @ c, p, l, c]"
    unfolding split using later here by (rule first_some_at)
  finally show ?thesis by (simp only: r_def)
qed

lemma colon_digits_rest: "colon_digits t = Some (d1, d2, rest) \<Longrightarrow> set rest \<subseteq> set t"
  by (auto simp: colon_digits_def Let_def split: list.splits if_splits dest!: in_set_dropD)
    (metis in_set_dropD list.set_intros(2))

lemma named_tail_None:
  assumes "CHR '')'' \<notin> set r"
  shows "named_tail r = None"
  unfolding named_tail_def
proof (rule first_some_None, rule ballI)
  fix k
  let ?r' = "drop (k + 2) r"
  have inner: "first_some (\<lambda>k'. case colon_digits (drop k' ?r') of
            None \<Rightarrow> None
          | Some (d1, d2, rest) \<Rightarrow>
              if take 1 rest \<noteq> '')'' then None
              else Some [''at '' @ take k r @ '' ('' @ take k' ?r' @ '':'' @ d1 @ '':'' @ d2 @ '')'',
                         take k r, take k' ?r', d1, d2])
          (rev [0..<Suc (length ?r')]) = None"
  proof (rule first_some_None, rule ballI)
    fix k'
    show "(case colon_digits (drop k' ?r') of
            None \<Rightarrow> None
          | Some (d1, d2, rest) \<Rightarrow>
              if take 1 rest \<noteq> '')'' then None
              else Some [''at '' @ take k r @ '' ('' @ take k' ?r' @ '':'' @ d1 @ '':'' @ d2 @ '')'',
                         take k r, take k' ?r', d1, d2]) = None"
    proof (cases "colon_digits (drop k' ?r')")
      case (Some v)
      obtain d1 d2 rest where v: "v = (d1, d2, rest)" by (cases v)
      have "set rest \<subseteq> set r" using colon_digits_rest [of _ d1 d2 rest] Some v
        by (auto dest!: in_set_dropD)
      then have "take 1 rest \<noteq> '')''" using assms by (cases rest) auto
      then show ?thesis using Some v by simp
    qed simp
  qed
  then show "(if take 2 (drop k r) \<noteq> '' ('' then None else (let r' = ?r' in first_some (\<lambda>k'.
            case colon_digits (drop k' r') of
              None \<Rightarrow> None
            | Some (d1, d2, rest) \<Rightarrow>
                if take 1 rest \<noteq> '')'' then None
                else Some [''at '' @ take k r @ '' ('' @ take k' r' @ '':'' @ d1 @ '':'' @ d2 @ '')'',
                           take k r, take k' r', d1, d2])
          (rev [0..<Suc (length r')]))) = None"
    by (simp only: Let_def inner if_cancel)
qed

lemma regex_match_None:
  "(\<And>r. set r \<subseteq> set s \<Longrightarrow> tail r = None) \<Longrightarrow> regex_match tail s = None"
  unfolding regex_match_def by (rule first_some_None) (auto dest: in_set_dropD)

lemma regex_match_indent:
  assumes "tail r = Some m"
  shows "regex_match tail (replicate n CHR '' '' @ ''at '' @ r) = Some m"
proof -
  define s where "s = replicate n CHR '' '' @ ''at '' @ r"
  define g where "g = (\<lambda>i. if take 3 (drop i s) = ''at '' then tail (drop (i + 3) s) else None)"
  have split: "[0..<length s] = [0..<n] @ n # [Suc n..<length s]"
    by (rule upt_split) (simp add: s_def)
  have before: "\<forall>i\<in>set [0..<n]. g i = None"
  proof
    fix i assume "i \<in> set [0..<n]"
    then have "i < n" by simp
    then have "n - i = Suc (n - Suc i)" by simp
    then have "drop i s = CHR '' '' # drop (Suc i) s" by (simp add: s_def)
    then show "g i = None" by (simp add: g_def)
  qed
  have at: "g n = Some m" using assms by (simp add: g_def s_def)
  have "regex_match tail s = first_some g [0..<length s]" by (simp only: regex_match_def g_def)
  also have "\<dots> = Some m" unfolding split using before at by (rule first_some_at)
  finally show ?thesis by (simp only: s_def)
qed

lemma frame_match_bare:
  assumes "list_all is_dec l" "list_all is_dec c" "l \<noteq> []" "c \<noteq> []" "CHR '')'' \<notin> set p"
  shows "frame_match (Some (replicate n CHR '' '' @ ''at '' @ p @ '':'' @ l @ '':'' @ c)) =
           Some [''at '' @ p @ '':'' @ l @ '':'' @ c, p, l, c]"
proof -
  let ?s = "replicate n CHR '' '' @ ''at '' @ p @ '':'' @ l @ '':'' @ c"
  have nd: "\<not> is_dec CHR '')''" by (simp add: is_dec_def)
  then have "CHR '')'' \<notin> set l" "CHR '')'' \<notin> set c"
    using assms(1,2) by (auto simp: list_all_iff)
  then have "CHR '')'' \<notin> set ?s" using assms(5) by simp
  then have "regex_match named_tail ?s = None"
    by (intro regex_match_None named_tail_None) blast
  moreover have "regex_match bare_tail ?s = Some [''at '' @ p @ '':'' @ l @ '':'' @ c, p, l, c]"
    using regex_match_indent [of bare_tail "p @ CHR '':'' # l @ CHR '':'' # c", OF bare_tail_frame [OF assms(1-4)], of n]
    by simp
  ultimately show ?thesis by (simp add: frame_match_def)
qed

lemma color_lengths: "length (get_color lvl) = 5" "length color_reset = 4"
  by (cases lvl) (simp_all add: get_color_def color_green_def color_yellow_def color_red_def color_blue_def color_reset_def)

lemma uncolor_line: "uncolor (get_color lvl @ t @ color_reset) = t"
  by (simp add: uncolor_def color_lengths)

lemma log_call_output:
  "console_out (log_call lvl ts fr args st) =
     console_out st @ [get_color lvl @ (format_message ts fr lvl @ '' '' @ js_join '' '' args) @ color_reset]"
  "log_file (log_call lvl ts fr args st) =
     log_file st @ (format_message ts fr lvl @ '' '' @ js_join '' '' args) @ ''\<newline>''"
  by (simp_all add: log_call_def Let_def)

lemma take_Suc_split: "take (Suc n) xs = ys @ [x] \<Longrightarrow> length ys = n \<Longrightarrow> xs = ys @ x # drop (Suc n) xs"
  by (metis append.assoc append_Cons append_Nil append_take_drop_id take_Suc_conv_app_nth take_hd_drop
      butlast_snoc last_snoc length_append_singleton lessI nat_less_le)

text \<open>C33: the log file mirrors the console. Over any sequence of calls, the console only
  gains lines at its end, and the file only gains text at its end: for each new console
  line, that line without its colour code and reset, followed by a newline, in call
  order.\<close>

theorem log_file_mirrors_console:
  "take (length (console_out st)) (console_out (log_calls cs st)) = console_out st \<and>
   log_file (log_calls cs st) =
     log_file st @ concat (map (\<lambda>l. uncolor l @ ''\<newline>'') (drop (length (console_out st)) (console_out (log_calls cs st))))"
proof (induction cs arbitrary: st)
  case Nil
  then show ?case by (simp add: log_calls_def)
next
  case (Cons c cs)
  obtain lvl ts fr args where c: "c = (lvl, ts, fr, args)" by (cases c) auto
  define t where "t = format_message ts fr lvl @ '' '' @ js_join '' '' args"
  define st' where "st' = log_call lvl ts fr args st"
  define R where "R = console_out (log_calls cs st')"
  have step: "log_calls (c # cs) st = log_calls cs st'" by (simp add: log_calls_def c st'_def)
  have out: "console_out st' = console_out st @ [get_color lvl @ t @ color_reset]"
    "log_file st' = log_file st @ t @ ''\<newline>''"
    by (simp_all add: st'_def t_def log_call_output)
  from Cons.IH [of st'] have
    ih1: "take (Suc (length (console_out st))) R = console_out st @ [get_color lvl @ t @ color_reset]" and
    ih2: "log_file (log_calls cs st') = log_file st @ t @ ''\<newline>'' @
            concat (map (\<lambda>l. uncolor l @ ''\<newline>'') (drop (Suc (length (console_out st))) R))"
    by (simp_all add: out R_def)
  have R: "R = console_out st @ (get_color lvl @ t @ color_reset) # drop (Suc (length (console_out st))) R"
    using take_Suc_split [OF ih1] by simp
  show ?case
    unfolding step R_def [symmetric]
  proof
    show "take (length (console_out st)) R = console_out st"
      by (subst R) simp
    show "log_file (log_calls cs st') =
        log_file st @ concat (map (\<lambda>l. uncolor l @ ''\<newline>'') (drop (length (console_out st)) R))"
    proof -
      have "drop (length (console_out st)) R =
          (get_color lvl @ t @ color_reset) # drop (Suc (length (console_out st))) R"
        by (subst R) simp
      then show ?thesis by (simp add: ih2 uncolor_line)
    qed
  qed
qed

text \<open>C34: a frame without a function name is reported shifted. When the caller's line is
  \<open>at p:l:c\<close> (indented, \<open>p\<close> without a closing parenthesis), the first pattern finds
  no match and the second one does, with groups \<open>p\<close>, \<open>l\<close>, \<open>c\<close>: one place earlier
  than \<open>formatMessage\<close> reads them. The line number is printed as the file name, the
  column as the line, and the whole path as the function name.\<close>

theorem bare_frame_shifted:
  assumes "stack_line stack = Some (replicate n CHR '' '' @ ''at '' @ p @ '':'' @ l @ '':'' @ c)"
    and "CHR '')'' \<notin> set p" and "p \<noteq> []"
    and "list_all is_dec l" and "list_all is_dec c" and "l \<noteq> []" and "c \<noteq> []"
  shows "format_message ts stack lvl =
     ''['' @ ts @ ''] ['' @ basename l @ '':'' @ c @ ''] ['' @ p @ ''] ['' @ js_upper (level_name lvl) @ '']''"
  using frame_match_bare [OF assms(4-7,2), of n] assms(1,3,6,7)
  by (simp add: format_message_def match_group_def str_or_def)

lemma stack_demo:
  "stack_line (Some ''Error\<newline>    at Logger.formatMessage (/app/dist/utils/logger.js:43:23)\<newline>    at Logger.log (/app/dist/utils/logger.js:76:30)\<newline>    at Logger.info (/app/dist/utils/logger.js:90:14)\<newline>    at /app/dist/server.js:41:7'') =
   Some (replicate 4 CHR '' '' @ ''at '' @ ''/app/dist/server.js'' @ '':'' @ ''41'' @ '':'' @ ''7'')"
  by (simp add: stack_line_def numeral_eq_Suc)


lemma bare_frame_shifted_witness:
  "format_message ''2025-03-25T10:00:00.000Z''
     (Some ''Error\<newline>    at Logger.formatMessage (/app/dist/utils/logger.js:43:23)\<newline>    at Logger.log (/app/dist/utils/logger.js:76:30)\<newline>    at Logger.info (/app/dist/utils/logger.js:90:14)\<newline>    at /app/dist/server.js:41:7'') Info =
     ''[2025-03-25T10:00:00.000Z] [41:7] [/app/dist/server.js] [INFO]''"
proof -
  have "basename ''41'' = ''41''" by (simp add: basename_def)
  moreover have "js_upper (level_name Info) = ''INFO''"
    by (simp add: level_name_def js_upper_def upper_char_def ascii_lower_def ascii_upper_def)
  moreover have "list_all is_dec ''41''" "list_all is_dec ''7''" by (simp_all add: is_dec_def)
  ultimately show ?thesis
    using bare_frame_shifted [OF stack_demo, of "''2025-03-25T10:00:00.000Z''" Info]
    by simp
qed

end
