(* ===== verification/Store.thy ===== *)
theory Store
  imports Ingest Parser
begin

text \<open>
  The store the two loops share. \<open>syncEvents\<close> and \<open>syncParse\<close> run as independent
  timers and interleave at their await points, so the store sees the statements of both
  loops one at a time in some interleaving. Each statement is one write: an \<open>INSERT\<close> of
  staged events, a watermark \<open>UPDATE\<close> of \<open>scan_tasks\<close>, the \<open>UPDATE\<close> that marks an
  event processed, or the ledger write of \<open>handleStaked\<close>/\<open>handleUnStaked\<close>. The ledger
  write is taken with the read of \<open>getUser\<close> before it: only the parse loop touches
  the \<open>user\<close> table, so no other write comes between them that matters to it.
\<close>

inductive store_write :: "store \<Rightarrow> store \<Rightarrow> bool" where
  insert: "store_write s (insert_events evs s)"
| watermark: "store_write s (update_from_block c b s)"
| mark: "store_write s (s\<lparr>event_rows := mark_processed i (event_rows s)\<rparr>)"
| ledger: "dispatch_event et w a (users s) = Inr us \<Longrightarrow> store_write s (s\<lparr>users := us\<rparr>)"

text \<open>The well-formedness of the store: event ids are distinct and below the
  auto-increment counter, and the \<open>user\<close> table has one readable row per wallet.\<close>

definition store_ok :: "store \<Rightarrow> bool" where
  "store_ok s \<longleftrightarrow> ids_ok s \<and> ledger_wf (users s)"

lemma write_phase_steps: "write_phase flt cs outs s = (s', ok) \<Longrightarrow> store_write\<^sup>*\<^sup>* s s'"
proof (induction cs arbitrary: s)
  case (Cons c cs)
  have ins: "\<And>s1 s2 ok. insert_batch (\<lambda>i. flt (FInsertChunk c i)) insert_events (staged_of outs c) s1 = (s2, ok) \<Longrightarrow>
              store_write\<^sup>*\<^sup>* s1 s2"
    by (rule insert_batch_steps) (rule store_write.insert)
  have wm: "store_write\<^sup>*\<^sup>* s (update_from_block c n s)" for n
    by (rule r_into_rtranclp) (rule store_write.watermark)
  define upd where "upd = (case next_of outs c of
      Some nxt \<Rightarrow> if nxt \<noteq> 0 then (if flt (FUpdateTasks c) then None else Some (update_from_block c nxt s))
                  else Some s
    | None \<Rightarrow> Some s)"
  have eq: "write_phase flt (c # cs) outs s =
      (case upd of
         None \<Rightarrow> (s, False)
       | Some s1 \<Rightarrow>
           (let (s2, ok) = insert_batch (\<lambda>i. flt (FInsertChunk c i)) insert_events (staged_of outs c) s1
            in if ok then write_phase flt cs outs s2 else (s2, False)))"
    by (simp only: write_phase.simps upd_def Let_def)
  show ?case
  proof (cases upd)
    case None
    then show ?thesis using Cons.prems eq by simp
  next
    case (Some s1)
    have s1: "store_write\<^sup>*\<^sup>* s s1"
      using Some wm by (auto simp: upd_def split: option.splits if_splits)
    obtain s2 ok2 where b: "insert_batch (\<lambda>i. flt (FInsertChunk c i)) insert_events (staged_of outs c) s1 = (s2, ok2)"
      by (cases "insert_batch (\<lambda>i. flt (FInsertChunk c i)) insert_events (staged_of outs c) s1")
    have s12: "store_write\<^sup>*\<^sup>* s s2" using s1 ins [OF b] by (rule rtranclp_trans)
    show ?thesis
    proof (cases ok2)
      case True
      then have "write_phase flt cs outs s2 = (s', ok)" using Cons.prems eq Some b by simp
      then show ?thesis using s12 Cons.IH by (blast intro: rtranclp_trans)
    next
      case False
      then have "s' = s2" using Cons.prems eq Some b by simp
      then show ?thesis using s12 by simp
    qed
  qed
qed simp

lemma write_phase_fst_steps: "store_write\<^sup>*\<^sup>* s (fst (write_phase flt cs outs s))"
  by (cases "write_phase flt cs outs s") (auto dest: write_phase_steps)

lemma sync_cycle_steps: "store_write\<^sup>*\<^sup>* s (sync_cycle cfg env flt s)"
  by (auto simp: sync_cycle_def Let_def split: sum.splits intro: write_phase_fst_steps)

lemma process_event_steps: "store_write\<^sup>*\<^sup>* s (process_event pf e s)"
proof -
  have m: "store_write t (t\<lparr>event_rows := mark_processed i (event_rows t)\<rparr>)" for t i
    by (rule store_write.mark)
  have l: "dispatch_event et w a (users t) = Inr us \<Longrightarrow> store_write t (t\<lparr>users := us\<rparr>)" for t et w a us
    by (rule store_write.ledger)
  show ?thesis
  proof (cases "parse_event_data (ev_data e)")
    case (Inr p)
    obtain w a where p: "p = (w, a)" by (cases p)
    show ?thesis
    proof (cases "dispatch_event (ev_event_type e) w a (users s)")
      case (Inr us)
      have "store_write s (s\<lparr>users := us\<rparr>)" using l [OF Inr] .
      moreover have "store_write (s\<lparr>users := us\<rparr>) (s\<lparr>users := us, event_rows := mark_processed (ev_id e) (event_rows s)\<rparr>)"
        using m [of "s\<lparr>users := us\<rparr>" "ev_id e"] by simp
      ultimately show ?thesis using \<open>parse_event_data (ev_data e) = Inr p\<close> p Inr
        by (auto simp: process_event_def)
    qed (simp add: process_event_def \<open>parse_event_data (ev_data e) = Inr p\<close> p)
  qed (simp add: process_event_def)
qed

lemma sync_parse_steps: "store_write\<^sup>*\<^sup>* s (sync_parse_body pf s)"
  by (simp add: sync_parse_body_def fold_steps process_event_steps)

text \<open>C6: each cycle is a sequence of writes. Whatever the RPC answers and whichever
  statements fail, one cycle of \<open>syncEvents\<close> and one cycle of \<open>syncParse\<close> change
  the store only by the writes of \<open>store_write\<close>, one after the other; so any
  interleaving of the two loops is a sequence of such writes.\<close>

theorem cycles_are_store_writes:
  "store_write\<^sup>*\<^sup>* s (sync_cycle cfg env flt s) \<and> store_write\<^sup>*\<^sup>* s (sync_parse_body pf s)"
  using sync_cycle_steps sync_parse_steps by blast

lemma ids_ok_ids: "ids_ok s \<longleftrightarrow> distinct (map ev_id (event_rows s)) \<and> (\<forall>i\<in>set (map ev_id (event_rows s)). i < next_event_id s)"
  by (auto simp: ids_ok_def)

lemma insert_events_ids_ok: "ids_ok s \<Longrightarrow> ids_ok (insert_events evs s)"
  unfolding ids_ok_ids by (auto simp: insert_events_def)

lemma mark_ids_ok: "ids_ok s \<Longrightarrow> ids_ok (s\<lparr>event_rows := mark_processed i (event_rows s)\<rparr>)"
  unfolding ids_ok_ids by simp

lemma dispatch_event_wf: "ledger_wf us \<Longrightarrow> dispatch_event et w a us = Inr us' \<Longrightarrow> ledger_wf us'"
  using handle_staked_refines [of us w a] handle_unstaked_refines [of us w a]
  by (auto simp: dispatch_event_def split: if_splits)

lemma store_write_ok: "store_write s t \<Longrightarrow> store_ok s \<Longrightarrow> store_ok t"
proof (induction rule: store_write.induct)
  case (insert s evs)
  then show ?case by (simp add: store_ok_def insert_events_ids_ok)
next
  case (watermark s c b)
  then show ?case by (simp add: store_ok_def ids_ok_def)
next
  case (mark s i)
  then show ?case by (simp add: store_ok_def mark_ids_ok)
next
  case (ledger et w a s us)
  then show ?case by (auto simp: store_ok_def ids_ok_def dest: dispatch_event_wf)
qed

text \<open>C5: the store stays well formed. From a well-formed store, every sequence of writes
  of the two loops, in any interleaving and with any statement failing, leaves event ids
  distinct and below the auto-increment counter, and the \<open>user\<close> table with one readable
  row per wallet.\<close>

theorem store_ok_invariant:
  assumes "store_ok s" and "store_write\<^sup>*\<^sup>* s t"
  shows "store_ok t"
  using assms(2,1) by (induction rule: rtranclp_induct) (auto intro: store_write_ok)

lemma store_ok_invariant_witness:
  "store_ok demo_store \<and> store_write\<^sup>*\<^sup>* demo_store (sync_parse_body no_faults demo_store) \<and>
   store_ok (sync_parse_body no_faults demo_store)"
proof -
  have ok: "store_ok demo_store"
    by (simp add: store_ok_def ids_ok_def ledger_wf_def demo_store_def demo_event_def)
  have st: "store_write\<^sup>*\<^sup>* demo_store (sync_parse_body no_faults demo_store)" by (rule sync_parse_steps)
  show ?thesis using ok st store_ok_invariant [OF ok st] by blast
qed

end
