(* ===== verification/Spec2Isabelle.thy ===== *)
theory Spec2Isabelle
  imports Bootstrap Rest Logger Store
begin

text \<open>
  Verification model of the \<open>ts_block_demo\<close> indexer (\<open>src/src\<close>, with its compiled
  copy in \<open>src/dist\<close>). The program has two loops over one MySQL store. The scan
  loop, \<open>BlockchainService.syncEvents\<close> in \<open>services/blockchain.ts\<close>, reads contract
  logs from EVM chains and stores them as \<open>event_data\<close> rows. The parse loop,
  \<open>ParseService.syncParse\<close> in \<open>services/parse.ts\<close>, decodes the unprocessed rows and
  books them into the per-wallet \<open>user\<close> ledger. Both loops are single-flight timers,
  and both talk to MySQL through \<open>utils/mysqlQueryBuilder.ts\<close>.

  \<^bold>\<open>Theories\<close>, leaves first, and what each models:
  \<^item> \<open>Prelude\<close>: the error values, the JavaScript string built-ins the code uses,
    \<open>UPDATE\<close> on a row list (\<open>update_where\<close>), and shared list lemmas.
  \<^item> \<open>BigIntStr\<close>: \<open>BigInt(string)\<close> as \<open>string_to_bigint\<close>, including whitespace
    trimming, signs and the \<open>0x\<close>/\<open>0o\<close>/\<open>0b\<close> prefixes. Also
    \<open>BigInt.prototype.toString\<close> as \<open>bigint_to_string\<close>, and the 64-digit ABI amount
    word. The round-trip lemmas state that \<open>BigInt(x.toString()) = x\<close> and that an
    encoded amount decodes to itself.
  \<^item> \<open>Tables\<close>: the rows of \<open>models/*.ts\<close> as records, and the store as a record of
    the three tables plus the auto-increment counter.
  \<^item> \<open>Ledger\<close>: \<open>getUser\<close>, \<open>handleStaked\<close> and \<open>handleUnStaked\<close>. An abstract ledger
    maps a wallet to its totals; each handler refines one step of it on a well-formed
    table. The nominal invariant \<open>current = staked - unstaked\<close> is kept by every
    handler on a known wallet, and broken by an UnStaked for a new wallet.
  \<^item> \<open>Parser\<close>: \<open>parseEventData\<close>, \<open>processEvent\<close> and one \<open>syncParse\<close> cycle
    (\<open>sync_parse_body\<close>). It proves liveness: \<open>k\<close> cycles process up to \<open>10k\<close>
    records. It proves refinement of the abstract ledger by a cycle, and the error
    paths: malformed records, a failing ledger write, a failing mark. It also proves
    that ten undecodable records starve the queue.
  \<^item> \<open>Scheduler\<close>: the \<open>isSyncing\<close> guard, the \<open>finally\<close> block and the
    \<open>setTimeout\<close> rescheduling that both loops share, as an inductive step relation
    over calls, timer callbacks and completions. It proves that single-flight holds
    in every reachable state, and that the timer-driven loop never stalls.
  \<^item> \<open>Scanner\<close>: the read phase of \<open>syncEvents\<close>. This covers grouping the tasks
    by chain (\<open>group_tasks\<close>), the scan window, log matching with the existence count
    (\<open>match_log\<close>, \<open>scan_logs\<close>), the per-chain function (\<open>scan_chain\<close>) and
    \<open>Promise.all\<close> (\<open>scan_phase\<close>). The lemmas cover the grouping partition, the
    minimum watermark, the zero-watermark quirk of \<open>!currentFrom\<close>, and the window
    bounds. The repeated cycles of one chain under a fixed head (\<open>catch_up\<close>) are
    shown to catch up whenever the block range is not negative.
  \<^item> \<open>QueryBuilder\<close>: \<open>insertBatch\<close> as chunks of 1000 rows, one awaited
    \<open>INSERT\<close> each, with a round trip and the number of chunks.
  \<^item> \<open>Ingest\<close>: the write phase of \<open>syncEvents\<close> (\<open>write_phase\<close>), in which each chain
    gets its watermark \<open>UPDATE\<close> and then its batch insert, and the whole cycle
    (\<open>sync_cycle\<close>). The lemmas show that:
    \<^item> a cycle only appends rows, whose keys are new to the store;
    \<^item> the exact effect of a cycle without write faults;
    \<^item> the watermark advances;
    \<^item> events are lost when the insert fails after the watermark moved;
    \<^item> one failing head read aborts all chains;
    \<^item> a task's \<open>from_block\<close> can decrease.
  \<^item> \<open>SqlBuilder\<close>: every statement builder of \<open>MySQLQueryBuilder\<close>, rendering SQL
    text and bound values. The \<open>Operator\<close> union is a datatype (\<open>operator\<close>), as the
    source types it. Its lemmas show three things. The push loops of
    \<open>buildWhereClause\<close> equal a declarative reading. Every statement has as many
    \<open>?\<close> as bound values. A \<open>JOIN\<close> is glued to the table name.
  \<^item> \<open>Queries\<close>: the statements the services actually issue, with a store semantics
    for \<open>WHERE\<close> (every operator, \<open>LIKE\<close> with its wildcards), \<open>UPDATE\<close>, \<open>COUNT\<close>
    and \<open>SELECT\<close>. Its lemmas show that each
    store operation the other theories use is exactly what its issued statement does,
    with the statement's text pinned. These are \<open>update_from_block\<close>,
    \<open>event_count\<close>, \<open>mark_processed\<close>, \<open>unprocessed_page\<close>, \<open>get_user\<close>, and the
    two ledger handlers. It also bounds each batched \<open>INSERT\<close> of scanned events to 14000
    bound values, below MySQL's limit for one prepared statement.
  \<^item> \<open>Rest\<close>: the route \<open>GET /api/user\<close>, \<open>UserController.getUser\<close> and \<open>StakeController.getTotalStaked\<close>: their
    queries, the \<open>User not found\<close> path, and the proof that \<open>getTotalStaked\<close> returns
    one address's sum instead of the total.
  \<^item> \<open>Bootstrap\<close>: the configuration \<open>server.ts\<close> and \<open>config/db.ts\<close> read from
    \<open>process.env\<close>, with \<open>parseInt(s, 10)\<close> (\<open>js_parse_int\<close>) and the \<open>||\<close> defaults
    (\<open>env_or\<close>). It proves that \<open>parseInt\<close> reads a printed integer back, the defaults
    end to end (below), that a \<open>NaN\<close> interval falls back only for the scan loop, and that
    a negative \<open>BLOCK_RANGE\<close>, in any environment, makes every scanned window end
    below the watermark, so the scanner does not move forward.
  \<^item> \<open>Logger\<close>: \<open>utils/logger.ts\<close>: \<open>getColor\<close>, \<open>formatMessage\<close> and \<open>log\<close>, as a
    state of console lines and log-file text. The caller's line is cut out of the
    \<open>Error\<close> stack and matched against the two regular expressions of
    \<open>formatMessage\<close>, with the leftmost, greedy, backtracking search of JavaScript
    (\<open>regex_match\<close>, \<open>named_tail\<close>, \<open>bare_tail\<close>). It proves that the file mirrors the
    console without colours, in call order, and that a frame without a function name is
    reported with its fields shifted.
  \<^item> \<open>Store\<close>: the two loops together. Their statements reach the shared store one
    at a time, in any interleaving (\<open>store_write\<close>). Each cycle of either loop is a
    sequence of such writes. Every such sequence keeps the store well formed
    (\<open>store_ok\<close>): distinct event ids below the counter, and one readable \<open>user\<close>
    row per wallet.

  \<^bold>\<open>Inputs and faults.\<close> What the environment decides is an explicit input of the
  model:
  \<^item> the process environment (\<open>proc_env\<close>), and the clock and the \<open>Error\<close> stack of
    a log call;
  \<^item> RPC answers (\<open>rpc_env\<close>: head, logs, transactions, blocks), the endpoint
    \<open>Math.random\<close> picks, and \<open>keccak256\<close>; a \<open>None\<close> answer is a rejected promise;
  \<^item> which store writes fail (\<open>parse_faults\<close>, \<open>scan_faults\<close>).
  Errors are values (\<open>js_error + 'a\<close>). A rejected promise inside a \<open>try\<close> is a
  branch of the model: \<open>ScanFailed\<close>, or an unchanged store.

  \<^bold>\<open>Bounds and fuel.\<close> No definition uses fuel. Every loop of the code runs over a
  finite list and is structural recursion, apart from the chunking of
  \<open>insertBatch\<close> (\<open>batch_slices\<close>), which terminates by the length measure. The
  catch-up of one chain may not end (a negative range moves it backwards), so
  \<open>catch_up\<close> is a \<open>partial_function (option)\<close>, and that it returns is proved
  by induction on the distance to the head. The
  unbounded repetition of the loops is the inductive step relation of \<open>Scheduler\<close>,
  and repeated parse cycles are \<open>funpow\<close>. Amounts are unbounded integers, as
  JavaScript \<open>bigint\<close> is. Block numbers are integers, so the model does not bound
  them the way a JavaScript number is bounded.

  \<^bold>\<open>Not modelled.\<close>
  \<^item> In \<open>utils/logger.ts\<close>: creating the log directory and the dated file stream
    (file-system I/O). The clock and the stack are inputs of \<open>Logger\<close>.
  \<^item> The framework glue of the REST layer: the \<open>tsoa\<close> decorators, the route table
    \<open>tsoa\<close> generates (not in the repository) and \<open>swagger\<close>. The controllers' handlers
    and the Express route \<open>GET /api/user\<close> are modelled in \<open>Rest\<close> and \<open>SqlBuilder\<close>.
  \<^item> The Express application of \<open>server.ts\<close> (\<open>app.use\<close>, \<open>app.listen\<close>, swagger set-up):
    framework glue. Its configuration is modelled in \<open>Bootstrap\<close>.
  \<^item> \<open>ethers\<close>: its calls are inputs.
  \<^item> MySQL's collations and its own failure modes: strings compare exactly, and a
    statement either applies or fails as a whole.
  \<^item> The \<open>id\<close> and timestamp columns the store fills in. Only the auto-increment id
    of \<open>event_data\<close> is modelled.
\<close>

text \<open>The shipped defaults, end to end. With no variable set, \<open>server.ts\<close> configures
  block range 100, lag 6 and a sync delay of 10000 ms, and the parse interval 30000 ms, and the pool opens the database \<open>blockchain_db\<close>; on
  this configuration a chain at watermark 100 with head 210 is scanned up to block 200, the
  example of the specification.\<close>

theorem default_config_scan:
  "map_option (\<lambda>c. (scan_window 100 210 (block_delayed c) (block_range c), sync_delay (sync_interval c)))
     (boot_config no_env) = Some (Some 200, 10000)
   \<and> parse_interval no_env = Some 30000 \<and> db_name (db_pool_options no_env) = ''blockchain_db''"
  by (simp add: boot_config_default db_pool_default scan_window_def sync_delay_def)

end
